(* ===== verification/Prelude.thy ===== *)
theory Prelude
  imports Complex_Main "HOL-Library.Code_Target_Numeral"
begin

text \<open>
  The part of the Python runtime that \<open>src/truku_creator_game.py\<close> calls, as HOL
  definitions shared by every component theory.

  A computation of the program runs in a \<^emph>\<open>world\<close>: the lines still to be read from
  standard input, the raw random draws still to be consumed (draw \<open>k\<close> is
  \<open>draws w k\<close>), and the transcript
  of the results printed so far.  A computation returns a value and the new world, or a
  Python exception (\<open>Inl\<close>), which the game never catches.  \<open>py_return\<close>,
  \<open>py_raise\<close> and \<open>py_bind\<close> sequence such computations as the Python statements are
  sequenced.

  The library calls are modelled from Python's documented semantics:
  \<^item> \<open>input()\<close> (\<open>py_input\<close>) returns the next line, or raises \<open>EOFError\<close> when
    standard input is exhausted;
  \<^item> \<open>random._randbelow(n)\<close> (\<open>randbelow\<close>) consumes one draw and returns it modulo
    \<open>n\<close>: every value below \<open>n\<close> is the result for some draw, which is all a claim about
    the possible behaviours of the program needs;
  \<^item> \<open>random.choice\<close> (\<open>py_choice\<close>) raises \<open>IndexError\<close> on an empty sequence and
    otherwise indexes it with \<open>randbelow\<close>;
  \<^item> \<open>random.randint(a, b)\<close> (\<open>py_randint\<close>) is \<open>a + randbelow(b - a + 1)\<close>;
  \<^item> \<open>random.random()\<close> (\<open>py_random\<close>) is \<open>k / 2^53\<close> for a 53-bit draw \<open>k\<close>,
    exactly as CPython builds the float;
  \<^item> \<open>set.add\<close> (\<open>py_set_add\<close>) and \<open>set.remove\<close> (\<open>py_set_remove\<close>), on a set
    kept as a duplicate-free list; \<open>set.remove\<close> raises \<open>KeyError\<close> for an absent
    element;
  \<^item> \<open>str.strip()\<close> and \<open>str.split()\<close> (no argument) work on the characters that
    \<open>str.isspace()\<close> accepts.  A string is the list of its UTF-8 bytes, one \<open>char\<close>
    per byte, so only the ASCII whitespace (codes 9--13 and 28--32) is recognised; the
    non-ASCII whitespace code points (U+0085, U+00A0, U+3000, ...) are multi-byte
    sequences here and are not treated as whitespace.
\<close>

named_theorems py_simps "evaluation rules of the Python runtime model"
named_theorems frame_intros "introduction rules for the frame predicate draws_only"

section \<open>Exceptions, worlds and sequencing\<close>

datatype py_error = IndexError | EOFError | KeyError

record 'e world =
  stdin :: "string list"
  draws :: "nat \<Rightarrow> nat"
  transcript :: "'e list"

type_synonym ('a, 'e) py = "'e world \<Rightarrow> py_error + ('a \<times> 'e world)"

definition py_return :: "'a \<Rightarrow> ('a, 'e) py" where
  "py_return x w = Inr (x, w)"

definition py_raise :: "py_error \<Rightarrow> ('a, 'e) py" where
  "py_raise e w = Inl e"

definition py_bind :: "('a, 'e) py \<Rightarrow> ('a \<Rightarrow> ('b, 'e) py) \<Rightarrow> ('b, 'e) py" where
  "py_bind m f w = (case m w of Inl e \<Rightarrow> Inl e | Inr (x, w') \<Rightarrow> f x w')"

section \<open>Console and random numbers\<close>

text \<open>The draws after the first one, after the first \<open>n\<close>, and with \<open>ds\<close> in front.\<close>

definition next_draws :: "(nat \<Rightarrow> nat) \<Rightarrow> nat \<Rightarrow> nat" where
  "next_draws f k = f (Suc k)"

definition drop_draws :: "nat \<Rightarrow> (nat \<Rightarrow> nat) \<Rightarrow> nat \<Rightarrow> nat" where
  "drop_draws n f k = f (k + n)"

definition prepend :: "nat list \<Rightarrow> (nat \<Rightarrow> nat) \<Rightarrow> nat \<Rightarrow> nat" where
  "prepend ds f k = (if k < length ds then ds ! k else f (k - length ds))"

definition py_input :: "(string, 'e) py" where
  "py_input w = (case stdin w of [] \<Rightarrow> Inl EOFError | l # ls \<Rightarrow> Inr (l, w\<lparr>stdin := ls\<rparr>))"

text \<open>\<open>n\<close> successive \<open>input()\<close> calls.\<close>

fun py_input_n :: "nat \<Rightarrow> (string list, 'e) py" where
  "py_input_n 0 = py_return []"
| "py_input_n (Suc n) =
     py_bind py_input (\<lambda>l. py_bind (py_input_n n) (\<lambda>ls. py_return (l # ls)))"

definition py_print :: "'e \<Rightarrow> (unit, 'e) py" where
  "py_print x w = Inr ((), w\<lparr>transcript := transcript w @ [x]\<rparr>)"

definition randbelow :: "nat \<Rightarrow> (nat, 'e) py" where
  "randbelow n w = Inr (draws w 0 mod n, w\<lparr>draws := next_draws (draws w)\<rparr>)"

definition py_choice :: "'a list \<Rightarrow> ('a, 'e) py" where
  "py_choice xs =
     (if xs = [] then py_raise IndexError
      else py_bind (randbelow (length xs)) (\<lambda>i. py_return (xs ! i)))"

definition py_randint :: "int \<Rightarrow> int \<Rightarrow> (int, 'e) py" where
  "py_randint a b = py_bind (randbelow (nat (b - a + 1))) (\<lambda>i. py_return (a + int i))"

definition random_value :: "nat \<Rightarrow> real" where
  "random_value d = real (d mod 2 ^ 53) / 2 ^ 53"

definition py_set_add :: "'a \<Rightarrow> 'a list \<Rightarrow> 'a list" where
  "py_set_add x xs = (if x \<in> set xs then xs else xs @ [x])"

definition py_set_remove :: "'a \<Rightarrow> 'a list \<Rightarrow> py_error + 'a list" where
  "py_set_remove x xs = (if x \<in> set xs then Inr (removeAll x xs) else Inl KeyError)"

definition py_random :: "(real, 'e) py" where
  "py_random w = Inr (random_value (draws w 0), w\<lparr>draws := next_draws (draws w)\<rparr>)"

text \<open>A computation that only consumes random draws: it neither reads nor prints.\<close>

definition draws_only :: "('a, 'e) py \<Rightarrow> bool" where
  "draws_only m \<longleftrightarrow> (\<forall>w x w'. m w = Inr (x, w') \<longrightarrow> w' = w\<lparr>draws := draws w'\<rparr>)"

section \<open>Strings\<close>

definition py_isspace :: "char \<Rightarrow> bool" where
  "py_isspace c \<longleftrightarrow>
     (let n = (of_char c :: nat)
      in (9 \<le> n \<and> n \<le> 13) \<or> (28 \<le> n \<and> n \<le> 32))"

definition no_space :: "string \<Rightarrow> bool" where
  "no_space s \<longleftrightarrow> list_all (\<lambda>c. \<not> py_isspace c) s"

definition py_strip :: "string \<Rightarrow> string" where
  "py_strip s = rev (dropWhile py_isspace (rev (dropWhile py_isspace s)))"

text \<open>\<open>str.split()\<close>: \<open>cur\<close> is the word being read.\<close>

fun split_acc :: "string \<Rightarrow> string \<Rightarrow> string list" where
  "split_acc cur [] = (if cur = [] then [] else [cur])"
| "split_acc cur (c # cs) =
     (if py_isspace c then (if cur = [] then split_acc [] cs else cur # split_acc [] cs)
      else split_acc (cur @ [c]) cs)"

definition py_split :: "string \<Rightarrow> string list" where
  "py_split s = split_acc [] s"

section \<open>Sequencing laws\<close>

declare next_draws_def [py_simps] drop_draws_def [py_simps] prepend_def [py_simps]
  py_return_def [py_simps] py_raise_def [py_simps] py_bind_def [py_simps]
  py_input_def [py_simps] py_print_def [py_simps] randbelow_def [py_simps]
  py_choice_def [py_simps] py_randint_def [py_simps] py_random_def [py_simps]

lemma py_bind_return [simp]: "py_bind (py_return x) f = f x"
  by (simp add: fun_eq_iff py_bind_def py_return_def)

lemma py_bind_return_right [simp]: "py_bind m py_return = m"
  by (simp add: fun_eq_iff py_bind_def py_return_def split: sum.splits)

lemma py_bind_raise [simp]: "py_bind (py_raise e) f = py_raise e"
  by (simp add: fun_eq_iff py_bind_def py_raise_def)

lemma py_bind_assoc: "py_bind (py_bind m f) g = py_bind m (\<lambda>x. py_bind (f x) g)"
  by (simp add: fun_eq_iff py_bind_def split: sum.splits)

lemma py_bind_Inr [simp]: "m w = Inr (x, w') \<Longrightarrow> py_bind m f w = f x w'"
  by (simp add: py_bind_def)

lemma py_bind_Inl [simp]: "m w = Inl e \<Longrightarrow> py_bind m f w = Inl e"
  by (simp add: py_bind_def)

lemma py_bind_eq_Inr:
  "py_bind m f w = Inr r \<longleftrightarrow> (\<exists>x w'. m w = Inr (x, w') \<and> f x w' = Inr r)"
  by (simp add: py_bind_def split: sum.splits)

lemma py_bind_eq_Inl:
  "py_bind m f w = Inl e \<longleftrightarrow> m w = Inl e \<or> (\<exists>x w'. m w = Inr (x, w') \<and> f x w' = Inl e)"
  by (auto simp add: py_bind_def split: sum.splits)

section \<open>Whitespace: \<open>str.strip\<close> and \<open>str.split\<close>\<close>

lemma py_isspace_blank [simp]: "py_isspace (CHR '' '')"
  by (simp add: py_isspace_def)

lemma split_acc_space_append:
  "py_isspace c \<Longrightarrow> split_acc cur (a @ c # b) = split_acc cur a @ split_acc [] b"
  by (induction a arbitrary: cur) auto

lemma split_acc_all_space:
  "list_all py_isspace t \<Longrightarrow> split_acc cur t = (if cur = [] then [] else [cur])"
  by (induction t arbitrary: cur) auto

lemma split_acc_append_spaces:
  "list_all py_isspace t \<Longrightarrow> split_acc cur (a @ t) = split_acc cur a"
  by (induction a arbitrary: cur) (auto simp: split_acc_all_space)

lemma split_acc_dropWhile: "split_acc [] (dropWhile py_isspace s) = split_acc [] s"
  by (induction s) auto

lemma py_split_strip [simp]: "py_split (py_strip s) = py_split s"
proof -
  let ?s = "dropWhile py_isspace s"
  let ?t = "rev (takeWhile py_isspace (rev ?s))"
  have "rev (dropWhile py_isspace (rev ?s)) @ ?t = ?s"
    by (metis rev_append rev_rev_ident takeWhile_dropWhile_id)
  moreover have "list_all py_isspace ?t"
    by (auto simp: list_all_iff dest: set_takeWhileD)
  ultimately have "split_acc [] (rev (dropWhile py_isspace (rev ?s))) = split_acc [] ?s"
    by (metis split_acc_append_spaces)
  then show ?thesis
    by (simp add: py_split_def py_strip_def split_acc_dropWhile)
qed

lemma split_acc_no_space:
  "no_space w \<Longrightarrow> split_acc cur w = (if cur @ w = [] then [] else [cur @ w])"
  by (induction w arbitrary: cur) (auto simp: no_space_def)

lemma py_split_no_space: "no_space w \<Longrightarrow> py_split w = (if w = [] then [] else [w])"
  by (simp add: py_split_def split_acc_no_space)

lemma py_split_space_append:
  "py_isspace c \<Longrightarrow> py_split (a @ c # b) = py_split a @ py_split b"
  by (simp add: py_split_def split_acc_space_append)

lemma py_strip_Nil [simp]: "py_strip [] = []"
  by (simp add: py_strip_def)

lemma py_strip_id:
  assumes "s = [] \<or> \<not> py_isspace (hd s) \<and> \<not> py_isspace (last s)"
  shows "py_strip s = s"
proof (cases "s = []")
  case False
  with assms have "dropWhile py_isspace s = s" and "dropWhile py_isspace (rev s) = rev s"
    by (auto simp: dropWhile_eq_self_iff hd_rev)
  then show ?thesis by (simp add: py_strip_def)
qed (simp add: py_strip_def)

section \<open>Random choice, input and sets\<close>

lemma prepend_Nil [simp]: "prepend [] f = f"
  by (simp add: fun_eq_iff prepend_def)

lemma prepend_Cons_0 [simp]: "prepend (d # ds) f 0 = d"
  by (simp add: prepend_def)

lemma next_draws_prepend_Cons [simp]: "next_draws (prepend (d # ds) f) = prepend ds f"
  by (simp add: fun_eq_iff prepend_def next_draws_def)

lemma prepend_append [simp]: "prepend (xs @ ys) f = prepend xs (prepend ys f)"
proof
  fix k
  show "prepend (xs @ ys) f k = prepend xs (prepend ys f) k"
    by (cases "k < length xs") (auto simp: prepend_def nth_append)
qed

lemma next_draws_const [simp]: "next_draws (\<lambda>_. c) = (\<lambda>_. c)"
  by (simp add: fun_eq_iff next_draws_def)

lemma drop_draws_0 [simp]: "drop_draws 0 f = f"
  by (simp add: fun_eq_iff drop_draws_def)

lemma drop_draws_next [simp]: "drop_draws n (next_draws f) = drop_draws (Suc n) f"
  by (simp add: fun_eq_iff drop_draws_def next_draws_def)

lemma py_choice_Nil [simp]: "py_choice [] w = Inl IndexError"
  by (simp add: py_choice_def py_raise_def)

lemma py_choice_nonempty:
  "xs \<noteq> [] \<Longrightarrow>
   py_choice xs w = Inr (xs ! (draws w 0 mod length xs), w\<lparr>draws := next_draws (draws w)\<rparr>)"
  by (simp add: py_choice_def py_bind_def randbelow_def py_return_def)

lemma py_choice_Inr:
  "py_choice xs w = Inr (x, w') \<Longrightarrow> x \<in> set xs \<and> w' = w\<lparr>draws := next_draws (draws w)\<rparr>"
  by (cases "xs = []") (auto simp: py_choice_nonempty)

lemma py_choice_reach:
  "i < length xs \<Longrightarrow>
   py_choice xs (w\<lparr>draws := prepend (i # ds) r\<rparr>) = Inr (xs ! i, w\<lparr>draws := prepend ds r\<rparr>)"
  by (cases "xs = []") (auto simp: py_choice_nonempty)

lemma py_input_Inr:
  "py_input w = Inr (l, w') \<Longrightarrow> stdin w = l # stdin w' \<and> w' = w\<lparr>stdin := stdin w'\<rparr>"
  by (auto simp: py_input_def split: list.splits)

lemma py_input_Nil [simp]: "stdin w = [] \<Longrightarrow> py_input w = Inl EOFError"
  by (simp add: py_input_def)

lemma py_input_Cons [simp]: "stdin w = l # ls \<Longrightarrow> py_input w = Inr (l, w\<lparr>stdin := ls\<rparr>)"
  by (simp add: py_input_def)

lemma set_py_set_add [simp]: "set (py_set_add x xs) = insert x (set xs)"
  by (auto simp: py_set_add_def)

lemma distinct_py_set_add [simp]: "distinct xs \<Longrightarrow> distinct (py_set_add x xs)"
  by (simp add: py_set_add_def)

lemma py_set_remove_member [simp]: "x \<in> set xs \<Longrightarrow> py_set_remove x xs = Inr (removeAll x xs)"
  by (simp add: py_set_remove_def)

lemma py_set_remove_absent [simp]: "x \<notin> set xs \<Longrightarrow> py_set_remove x xs = Inl KeyError"
  by (simp add: py_set_remove_def)

lemma py_input_n_Inr:
  "py_input_n n w = Inr (ls, w') \<Longrightarrow> stdin w = ls @ stdin w' \<and> w' = w\<lparr>stdin := stdin w'\<rparr>"
proof (induction n arbitrary: w ls)
  case 0
  then show ?case by (simp add: py_return_def)
next
  case (Suc n)
  then obtain l w1 ls' where i1: "py_input w = Inr (l, w1)" and i2: "py_input_n n w1 = Inr (ls', w')"
    and ls: "ls = l # ls'" by (auto simp: py_bind_eq_Inr py_return_def)
  from Suc.IH [OF i2] have a: "stdin w1 = ls' @ stdin w'" "w' = w1\<lparr>stdin := stdin w'\<rparr>" by auto
  from py_input_Inr [OF i1] have b: "stdin w = l # stdin w1" "w1 = w\<lparr>stdin := stdin w1\<rparr>" by auto
  have "w' = w1\<lparr>stdin := stdin w'\<rparr>" by (rule a(2))
  also have "\<dots> = w\<lparr>stdin := stdin w'\<rparr>" by (subst b(2)) simp
  finally show ?case using a(1) b(1) ls by simp
qed

lemma py_input_n_Inl: "py_input_n n w = Inl e \<Longrightarrow> e = EOFError"
proof (induction n arbitrary: w)
  case 0
  then show ?case by (simp add: py_return_def)
next
  case (Suc n)
  then show ?case
    by (cases "stdin w") (auto simp: py_bind_eq_Inl py_bind_eq_Inr py_return_def)
qed

lemma py_input_n_length: "py_input_n n w = Inr (ls, w') \<Longrightarrow> length (stdin w') \<le> length (stdin w)"
  by (auto dest: py_input_n_Inr)

lemma py_input_n_Cons:
  "py_input_n n (w\<lparr>stdin := ls @ rest\<rparr>) = Inr (ls, w\<lparr>stdin := rest\<rparr>)" if "length ls = n"
  using that by (induction n arbitrary: ls) (auto simp: py_return_def length_Suc_conv)

section \<open>Computations that only consume draws\<close>

lemma draws_onlyD:
  "draws_only m \<Longrightarrow> m w = Inr (x, w') \<Longrightarrow> w' = w\<lparr>draws := draws w'\<rparr>"
  by (simp add: draws_only_def)

lemma draws_only_frame:
  "draws_only m \<Longrightarrow> m w = Inr (x, w') \<Longrightarrow> stdin w' = stdin w \<and> transcript w' = transcript w"
proof -
  assume "draws_only m" and "m w = Inr (x, w')"
  then have "w' = w\<lparr>draws := draws w'\<rparr>" by (rule draws_onlyD)
  then have "stdin w' = stdin (w\<lparr>draws := draws w'\<rparr>)"
    and "transcript w' = transcript (w\<lparr>draws := draws w'\<rparr>)" by simp_all
  then show ?thesis by simp
qed

lemma draws_only_return [frame_intros]: "draws_only (py_return x)"
  by (simp add: draws_only_def py_return_def)

lemma draws_only_bind [frame_intros]:
  assumes "draws_only m" and "\<And>x. draws_only (f x)"
  shows "draws_only (py_bind m f)"
  unfolding draws_only_def
proof (intro allI impI)
  fix w y w'
  assume "py_bind m f w = Inr (y, w')"
  then obtain x w1 where m: "m w = Inr (x, w1)" and f: "f x w1 = Inr (y, w')"
    by (auto simp: py_bind_eq_Inr)
  from assms(1) m have "w1 = w\<lparr>draws := draws w1\<rparr>" by (rule draws_onlyD)
  moreover from assms(2) f have "w' = w1\<lparr>draws := draws w'\<rparr>" by (rule draws_onlyD)
  ultimately have "w' = (w\<lparr>draws := draws w1\<rparr>)\<lparr>draws := draws w'\<rparr>"
    using arg_cong [where f = "\<lambda>u. u\<lparr>draws := draws w'\<rparr>"] by metis
  then show "w' = w\<lparr>draws := draws w'\<rparr>" by simp
qed

lemma draws_only_randbelow [frame_intros]: "draws_only (randbelow n)"
  by (simp add: draws_only_def randbelow_def)

lemma draws_only_py_choice [frame_intros]: "draws_only (py_choice xs)"
  by (auto simp: draws_only_def py_choice_def py_raise_def py_bind_eq_Inr randbelow_def py_return_def)

lemma draws_only_py_randint [frame_intros]: "draws_only (py_randint a b)"
  unfolding py_randint_def by (intro frame_intros)

lemma draws_only_py_random [frame_intros]: "draws_only py_random"
  by (simp add: draws_only_def py_random_def)

end
