(* ===== verification/Phonology.thy ===== *)
theory Phonology
  imports Prelude
begin

text \<open>
  \<open>PhonologySystem\<close> (\<open>src/truku_creator_game.py\<close>, lines 6--19) and the four
  inventory edits of the phonology stage (lines 76--87).  The record holds the consonant
  and vowel sets (duplicate-free lists, see \<open>Prelude\<close>) and the list of syllable
  patterns.  \<open>generate_syllable\<close> and \<open>generate_word\<close> thread the world, since they
  consume random draws and may raise \<open>IndexError\<close>.

  The abstract description of what they produce is \<open>slots_fit\<close> (a string made of one
  grapheme per slot of a pattern, from the pool the slot names), \<open>syllable_fits\<close> and
  \<open>word_fits\<close>.  The lemmas show that every result fits (soundness), that every fitting
  string is produced by some draws (completeness), that generation never fails when both
  inventories and the pattern list are non-empty, and exactly when it raises.  The
  removals call \<open>set.remove\<close>, which may raise \<open>KeyError\<close>; the edits are shown never to
  raise (the membership test guards the call) and to refine the specification's set
  operations.
\<close>

record phonology =
  consonants :: "string list"
  vowels :: "string list"
  syllable_patterns :: "string list"

definition default_phonology :: phonology where
  "default_phonology =
     \<lparr>consonants = [''p'', ''t'', ''k'', ''b'', ''g'', ''m'', ''n'', ''s'', ''h'', ''l'', ''r''],
      vowels = [''i'', ''u'', ''e'', ''o'', ''a''],
      syllable_patterns = [''CV'', ''CVC'', ''V'', ''CVV'']\<rparr>"

text \<open>A pattern character \<open>'C'\<close> draws a consonant, every other character a vowel.\<close>

definition slot_pool :: "phonology \<Rightarrow> char \<Rightarrow> string list" where
  "slot_pool ph ch = (if ch = CHR ''C'' then consonants ph else vowels ph)"

text \<open>The generator expression of line 14, one slot after the other.\<close>

fun draw_slots :: "phonology \<Rightarrow> string \<Rightarrow> (string, 'e) py" where
  "draw_slots ph [] = py_return []"
| "draw_slots ph (ch # pat) =
     py_bind (py_choice (slot_pool ph ch))
       (\<lambda>g. py_bind (draw_slots ph pat) (\<lambda>rest. py_return (g @ rest)))"

definition generate_syllable :: "phonology \<Rightarrow> (string, 'e) py" where
  "generate_syllable ph = py_bind (py_choice (syllable_patterns ph)) (draw_slots ph)"

text \<open>\<open>''.join(self.generate_syllable() for _ in range(n))\<close>.\<close>

fun generate_syllables :: "phonology \<Rightarrow> nat \<Rightarrow> (string, 'e) py" where
  "generate_syllables ph 0 = py_return []"
| "generate_syllables ph (Suc n) =
     py_bind (generate_syllable ph)
       (\<lambda>s. py_bind (generate_syllables ph n) (\<lambda>rest. py_return (s @ rest)))"

text \<open>
  \<open>syllable_count = None\<close> is \<open>None\<close>; \<open>range(n)\<close> of a negative \<open>n\<close> is empty,
  hence \<open>nat n\<close>.
\<close>

definition generate_word :: "phonology \<Rightarrow> int option \<Rightarrow> (string, 'e) py" where
  "generate_word ph syllable_count =
     py_bind (case syllable_count of None \<Rightarrow> py_randint 1 3 | Some n \<Rightarrow> py_return n)
       (\<lambda>n. generate_syllables ph (nat n))"

subsection \<open>Inventory edits of the phonology stage\<close>

text \<open>
  Lines 77--87: an empty input adds nothing; a removal calls \<open>set.remove\<close>, which
  raises \<open>KeyError\<close> for an absent grapheme, only after the membership test.  The
  removals therefore return \<open>py_error + phonology\<close>, with the exception as a value.
\<close>

definition add_consonant :: "string \<Rightarrow> phonology \<Rightarrow> phonology" where
  "add_consonant c ph =
     (if c \<noteq> [] then ph\<lparr>consonants := py_set_add c (consonants ph)\<rparr> else ph)"

definition remove_consonant :: "string \<Rightarrow> phonology \<Rightarrow> py_error + phonology" where
  "remove_consonant c ph =
     (if c \<in> set (consonants ph) then
        (case py_set_remove c (consonants ph) of
           Inl e \<Rightarrow> Inl e
         | Inr cs \<Rightarrow> Inr (ph\<lparr>consonants := cs\<rparr>))
      else Inr ph)"

definition add_vowel :: "string \<Rightarrow> phonology \<Rightarrow> phonology" where
  "add_vowel v ph = (if v \<noteq> [] then ph\<lparr>vowels := py_set_add v (vowels ph)\<rparr> else ph)"

definition remove_vowel :: "string \<Rightarrow> phonology \<Rightarrow> py_error + phonology" where
  "remove_vowel v ph =
     (if v \<in> set (vowels ph) then
        (case py_set_remove v (vowels ph) of
           Inl e \<Rightarrow> Inl e
         | Inr vs \<Rightarrow> Inr (ph\<lparr>vowels := vs\<rparr>))
      else Inr ph)"

text \<open>The menu codes 1--4 of the phonology stage, dispatched as in lines 76--87.\<close>

datatype inventory_edit =
  AddConsonant string | RemoveConsonant string | AddVowel string | RemoveVowel string

fun apply_edit :: "inventory_edit \<Rightarrow> phonology \<Rightarrow> py_error + phonology" where
  "apply_edit (AddConsonant c) ph = Inr (add_consonant c ph)"
| "apply_edit (RemoveConsonant c) ph = remove_consonant c ph"
| "apply_edit (AddVowel v) ph = Inr (add_vowel v ph)"
| "apply_edit (RemoveVowel v) ph = remove_vowel v ph"

subsection \<open>Abstract description of the inventory and of the generated strings\<close>

text \<open>
  The inventory as the specification sees it (two sets of graphemes), and the edits as it
  describes them: adding the empty string changes nothing, removing an absent grapheme
  changes nothing.  A slot \<open>'C'\<close> of a pattern stands for a consonant, any other slot
  for a vowel.
\<close>

definition inventory_abs :: "phonology \<Rightarrow> string set \<times> string set" where
  "inventory_abs ph = (set (consonants ph), set (vowels ph))"

fun spec_edit :: "inventory_edit \<Rightarrow> string set \<times> string set \<Rightarrow> string set \<times> string set" where
  "spec_edit (AddConsonant c) (C, V) = (if c = [] then (C, V) else (insert c C, V))"
| "spec_edit (RemoveConsonant c) (C, V) = (C - {c}, V)"
| "spec_edit (AddVowel v) (C, V) = (if v = [] then (C, V) else (C, insert v V))"
| "spec_edit (RemoveVowel v) (C, V) = (C, V - {v})"

fun slots_fit :: "phonology \<Rightarrow> string \<Rightarrow> string \<Rightarrow> bool" where
  "slots_fit ph [] s \<longleftrightarrow> s = []"
| "slots_fit ph (ch # pat) s \<longleftrightarrow>
     list_ex (\<lambda>g. take (length g) s = g \<and> slots_fit ph pat (drop (length g) s))
       (if ch = CHR ''C'' then consonants ph else vowels ph)"

definition syllable_fits :: "phonology \<Rightarrow> string \<Rightarrow> bool" where
  "syllable_fits ph s \<longleftrightarrow> list_ex (\<lambda>p. slots_fit ph p s) (syllable_patterns ph)"

fun word_fits :: "phonology \<Rightarrow> nat \<Rightarrow> string \<Rightarrow> bool" where
  "word_fits ph 0 s \<longleftrightarrow> s = []"
| "word_fits ph (Suc n) s \<longleftrightarrow>
     list_ex (\<lambda>k. syllable_fits ph (take k s) \<and> word_fits ph n (drop k s))
       [0..<Suc (length s)]"

definition inventory_ok :: "phonology \<Rightarrow> bool" where
  "inventory_ok ph \<longleftrightarrow> consonants ph \<noteq> [] \<and> vowels ph \<noteq> [] \<and> syllable_patterns ph \<noteq> []"

definition phon_inv :: "phonology \<Rightarrow> bool" where
  "phon_inv ph \<longleftrightarrow> distinct (consonants ph) \<and> distinct (vowels ph)"

section \<open>Properties\<close>

subsection \<open>Generation\<close>

lemma slots_fit_Cons_iff:
  "slots_fit ph (ch # pat) s \<longleftrightarrow>
   (\<exists>g rest. g \<in> set (slot_pool ph ch) \<and> s = g @ rest \<and> slots_fit ph pat rest)"
proof
  assume "slots_fit ph (ch # pat) s"
  then obtain g where "g \<in> set (slot_pool ph ch)" "take (length g) s = g"
    "slots_fit ph pat (drop (length g) s)" by (auto simp: list_ex_iff slot_pool_def)
  then show "\<exists>g rest. g \<in> set (slot_pool ph ch) \<and> s = g @ rest \<and> slots_fit ph pat rest"
    by (metis append_take_drop_id)
next
  assume "\<exists>g rest. g \<in> set (slot_pool ph ch) \<and> s = g @ rest \<and> slots_fit ph pat rest"
  then obtain g rest where "g \<in> set (slot_pool ph ch)" "s = g @ rest" "slots_fit ph pat rest"
    by blast
  then show "slots_fit ph (ch # pat) s"
    unfolding slots_fit.simps(2) list_ex_iff slot_pool_def [symmetric]
    by (intro bexI [of _ g]) simp_all
qed

declare slots_fit.simps(2) [simp del]

lemma word_fits_Suc_iff:
  "word_fits ph (Suc n) s \<longleftrightarrow> (\<exists>a b. s = a @ b \<and> syllable_fits ph a \<and> word_fits ph n b)"
proof
  assume "word_fits ph (Suc n) s"
  then obtain k where "syllable_fits ph (take k s)" "word_fits ph n (drop k s)"
    unfolding word_fits.simps(2) list_ex_iff by blast
  then show "\<exists>a b. s = a @ b \<and> syllable_fits ph a \<and> word_fits ph n b"
    by (metis append_take_drop_id)
next
  assume "\<exists>a b. s = a @ b \<and> syllable_fits ph a \<and> word_fits ph n b"
  then obtain a b where s: "s = a @ b" and a: "syllable_fits ph a" and b: "word_fits ph n b"
    by blast
  have "length a \<in> set [0..<Suc (length s)]" using s by simp
  moreover have "syllable_fits ph (take (length a) s) \<and> word_fits ph n (drop (length a) s)"
    using s a b by simp
  ultimately show "word_fits ph (Suc n) s"
    unfolding word_fits.simps(2) list_ex_iff by blast
qed

declare word_fits.simps(2) [simp del]

lemma slot_pool_nonempty: "inventory_ok ph \<Longrightarrow> slot_pool ph ch \<noteq> []"
  by (simp add: inventory_ok_def slot_pool_def)

lemma draw_slots_Inr:
  "draw_slots ph p w = Inr (s, w') \<Longrightarrow>
   slots_fit ph p s \<and> w' = w\<lparr>draws := drop_draws (length p) (draws w)\<rparr>"
proof (induction p arbitrary: w s)
  case Nil
  then show ?case by (simp add: py_return_def)
next
  case (Cons ch p)
  from Cons.prems obtain g w1 rest where
    g: "py_choice (slot_pool ph ch) w = Inr (g, w1)" and
    r: "draw_slots ph p w1 = Inr (rest, w')" and s: "s = g @ rest"
    by (auto simp: py_bind_eq_Inr py_return_def)
  from g have "g \<in> set (slot_pool ph ch)" and w1: "w1 = w\<lparr>draws := next_draws (draws w)\<rparr>"
    by (auto dest: py_choice_Inr)
  moreover from Cons.IH [OF r] w1 have "slots_fit ph p rest"
    and "w' = w\<lparr>draws := drop_draws (length p) (next_draws (draws w))\<rparr>" by auto
  ultimately show ?case using s by (simp add: slots_fit_Cons_iff) blast
qed

lemma draw_slots_reach:
  "slots_fit ph p s \<Longrightarrow>
   \<exists>ds. draw_slots ph p (w\<lparr>draws := prepend ds r\<rparr>) = Inr (s, w\<lparr>draws := r\<rparr>)"
proof (induction p arbitrary: s)
  case Nil
  then have "draw_slots ph [] (w\<lparr>draws := prepend [] r\<rparr>) = Inr (s, w\<lparr>draws := r\<rparr>)"
    by (simp add: py_return_def)
  then show ?case by blast
next
  case (Cons ch p)
  then obtain g rest where g: "g \<in> set (slot_pool ph ch)" and s: "s = g @ rest"
    and fit: "slots_fit ph p rest" by (meson slots_fit_Cons_iff)
  from g obtain i where i: "i < length (slot_pool ph ch)" "slot_pool ph ch ! i = g"
    by (auto simp: in_set_conv_nth)
  from Cons.IH [OF fit] obtain ds where
    ds: "draw_slots ph p (w\<lparr>draws := prepend ds r\<rparr>) = Inr (rest, w\<lparr>draws := r\<rparr>)" by blast
  have "py_choice (slot_pool ph ch) (w\<lparr>draws := prepend (i # ds) r\<rparr>)
        = Inr (g, w\<lparr>draws := prepend ds r\<rparr>)"
    using py_choice_reach [OF i(1), where w = w and ds = ds and r = r] i(2) by simp
  with ds s have "draw_slots ph (ch # p) (w\<lparr>draws := prepend (i # ds) r\<rparr>) = Inr (s, w\<lparr>draws := r\<rparr>)"
    by (simp add: py_return_def)
  then show ?case by blast
qed

lemma draw_slots_total:
  "(\<forall>ch \<in> set p. slot_pool ph ch \<noteq> []) \<Longrightarrow> \<exists>s w'. draw_slots ph p w = Inr (s, w')"
proof (induction p arbitrary: w)
  case Nil
  then show ?case by (simp add: py_return_def)
next
  case (Cons ch p)
  then have "slot_pool ph ch \<noteq> []" by simp
  then obtain g w1 where g: "py_choice (slot_pool ph ch) w = Inr (g, w1)"
    by (simp add: py_choice_nonempty)
  from Cons.prems have "\<forall>ch \<in> set p. slot_pool ph ch \<noteq> []" by simp
  with Cons.IH obtain rest w' where "draw_slots ph p w1 = Inr (rest, w')" by blast
  with g show ?case by (simp add: py_return_def)
qed

lemma draw_slots_empty_pool:
  "(\<exists>ch \<in> set p. slot_pool ph ch = []) \<Longrightarrow> draw_slots ph p w = Inl IndexError"
proof (induction p arbitrary: w)
  case Nil
  then show ?case by simp
next
  case (Cons ch p)
  show ?case
  proof (cases "slot_pool ph ch = []")
    case True
    then show ?thesis by simp
  next
    case False
    with Cons.prems have "\<exists>ch \<in> set p. slot_pool ph ch = []" by auto
    with False show ?thesis by (simp add: py_choice_nonempty Cons.IH)
  qed
qed

lemma draw_slots_Inl:
  assumes "draw_slots ph p w = Inl e"
  shows "e = IndexError"
proof (cases "\<exists>ch \<in> set p. slot_pool ph ch = []")
  case True
  with assms show ?thesis by (simp add: draw_slots_empty_pool)
next
  case False
  then obtain s w' where "draw_slots ph p w = Inr (s, w')"
    using draw_slots_total by blast
  with assms show ?thesis by simp
qed

lemma draw_slots_Inl_iff:
  "draw_slots ph p w = Inl e \<longleftrightarrow> e = IndexError \<and> (\<exists>ch \<in> set p. slot_pool ph ch = [])"
proof
  assume e: "draw_slots ph p w = Inl e"
  then have "e = IndexError" by (rule draw_slots_Inl)
  moreover have "\<exists>ch \<in> set p. slot_pool ph ch = []"
  proof (rule ccontr)
    assume "\<not> (\<exists>ch \<in> set p. slot_pool ph ch = [])"
    then obtain s w' where "draw_slots ph p w = Inr (s, w')"
      using draw_slots_total by blast
    with e show False by simp
  qed
  ultimately show "e = IndexError \<and> (\<exists>ch \<in> set p. slot_pool ph ch = [])" ..
next
  assume "e = IndexError \<and> (\<exists>ch \<in> set p. slot_pool ph ch = [])"
  then show "draw_slots ph p w = Inl e" by (simp add: draw_slots_empty_pool)
qed

lemma generate_syllable_sound:
  assumes "generate_syllable ph w = Inr (s, w')"
  shows "syllable_fits ph s"
proof -
  from assms obtain p w1 where p: "py_choice (syllable_patterns ph) w = Inr (p, w1)"
    and d: "draw_slots ph p w1 = Inr (s, w')"
    by (auto simp: generate_syllable_def py_bind_eq_Inr)
  from p have "p \<in> set (syllable_patterns ph)" by (simp add: py_choice_Inr)
  moreover from d have "slots_fit ph p s" by (simp add: draw_slots_Inr)
  ultimately show ?thesis unfolding syllable_fits_def list_ex_iff by blast
qed

lemma generate_syllable_complete:
  assumes "syllable_fits ph s"
  shows "\<exists>ds. generate_syllable ph (w\<lparr>draws := prepend ds r\<rparr>) = Inr (s, w\<lparr>draws := r\<rparr>)"
proof -
  from assms obtain p where p: "p \<in> set (syllable_patterns ph)" and fit: "slots_fit ph p s"
    unfolding syllable_fits_def list_ex_iff by blast
  from p obtain j where j: "j < length (syllable_patterns ph)" "syllable_patterns ph ! j = p"
    by (auto simp: in_set_conv_nth)
  from draw_slots_reach [OF fit] obtain ds where
    ds: "draw_slots ph p (w\<lparr>draws := prepend ds r\<rparr>) = Inr (s, w\<lparr>draws := r\<rparr>)" by blast
  have "py_choice (syllable_patterns ph) (w\<lparr>draws := prepend (j # ds) r\<rparr>)
        = Inr (p, w\<lparr>draws := prepend ds r\<rparr>)"
    using py_choice_reach [OF j(1), where w = w and ds = ds and r = r] j(2) by simp
  with ds have "generate_syllable ph (w\<lparr>draws := prepend (j # ds) r\<rparr>) = Inr (s, w\<lparr>draws := r\<rparr>)"
    by (simp add: generate_syllable_def)
  then show ?thesis by blast
qed

lemma generate_syllable_total:
  assumes "inventory_ok ph"
  shows "\<exists>s w'. generate_syllable ph w = Inr (s, w')"
proof -
  from assms have "syllable_patterns ph \<noteq> []" by (simp add: inventory_ok_def)
  then obtain p w1 where p: "py_choice (syllable_patterns ph) w = Inr (p, w1)"
    by (simp add: py_choice_nonempty)
  from assms obtain s w' where "draw_slots ph p w1 = Inr (s, w')"
    using draw_slots_total slot_pool_nonempty by blast
  with p show ?thesis by (auto simp: generate_syllable_def)
qed

text \<open>
  C5: \<open>generate_syllable\<close> raises an exception exactly when the pattern list is empty
  or the pattern it draws has a slot whose pool is empty, and the exception is then
  \<open>IndexError\<close> (from \<open>random.choice\<close>); in particular the default patterns
  contain \<open>'C'\<close>, so an emptied consonant set makes generation fail.
\<close>

theorem generate_syllable_raises:
  "generate_syllable ph w = Inl e \<longleftrightarrow>
   e = IndexError \<and>
   (syllable_patterns ph = [] \<or>
    (\<exists>ch \<in> set (syllable_patterns ph ! (draws w 0 mod length (syllable_patterns ph))).
       if ch = CHR ''C'' then consonants ph = [] else vowels ph = []))"
proof (cases "syllable_patterns ph = []")
  case True
  then show ?thesis by (auto simp: generate_syllable_def)
next
  case False
  let ?p = "syllable_patterns ph ! (draws w 0 mod length (syllable_patterns ph))"
  let ?w1 = "w\<lparr>draws := next_draws (draws w)\<rparr>"
  from False have "generate_syllable ph w = draw_slots ph ?p ?w1"
    by (simp add: generate_syllable_def py_choice_nonempty)
  moreover have "draw_slots ph ?p ?w1 = Inl e \<longleftrightarrow>
                 e = IndexError \<and> (\<exists>ch \<in> set ?p. slot_pool ph ch = [])"
    by (rule draw_slots_Inl_iff)
  ultimately show ?thesis using False by (simp add: slot_pool_def)
qed

lemma generate_syllables_sound:
  "generate_syllables ph n w = Inr (s, w') \<Longrightarrow> word_fits ph n s"
proof (induction n arbitrary: w s)
  case 0
  then show ?case by (simp add: py_return_def)
next
  case (Suc n)
  from Suc.prems obtain a w1 b where "generate_syllable ph w = Inr (a, w1)"
    and "generate_syllables ph n w1 = Inr (b, w')" and "s = a @ b"
    by (auto simp: py_bind_eq_Inr py_return_def)
  moreover from \<open>generate_syllable ph w = Inr (a, w1)\<close> have "syllable_fits ph a"
    by (rule generate_syllable_sound)
  moreover from Suc.IH [OF \<open>generate_syllables ph n w1 = Inr (b, w')\<close>] have "word_fits ph n b" .
  ultimately show ?case by (auto simp: word_fits_Suc_iff)
qed

lemma generate_syllables_complete:
  "word_fits ph n s \<Longrightarrow>
   \<exists>ds. generate_syllables ph n (w\<lparr>draws := prepend ds r\<rparr>) = Inr (s, w\<lparr>draws := r\<rparr>)"
proof (induction n arbitrary: s r)
  case 0
  then have "generate_syllables ph 0 (w\<lparr>draws := prepend [] r\<rparr>) = Inr (s, w\<lparr>draws := r\<rparr>)"
    by (simp add: py_return_def)
  then show ?case by blast
next
  case (Suc n)
  then obtain a b where s: "s = a @ b" and a: "syllable_fits ph a" and b: "word_fits ph n b"
    by (auto simp: word_fits_Suc_iff)
  from Suc.IH [OF b] obtain ds2 where
    ds2: "generate_syllables ph n (w\<lparr>draws := prepend ds2 r\<rparr>) = Inr (b, w\<lparr>draws := r\<rparr>)"
    by blast
  from generate_syllable_complete [OF a, where w = w and r = "prepend ds2 r"] obtain ds1 where
    ds1: "generate_syllable ph (w\<lparr>draws := prepend ds1 (prepend ds2 r)\<rparr>) = Inr (a, w\<lparr>draws := prepend ds2 r\<rparr>)"
    by auto
  from ds1 ds2 s have
    "generate_syllables ph (Suc n) (w\<lparr>draws := prepend (ds1 @ ds2) r\<rparr>) = Inr (s, w\<lparr>draws := r\<rparr>)"
    by (simp add: py_return_def)
  then show ?case by blast
qed

lemma generate_syllables_total:
  "inventory_ok ph \<Longrightarrow> \<exists>s w'. generate_syllables ph n w = Inr (s, w')"
proof (induction n arbitrary: w)
  case 0
  then show ?case by (simp add: py_return_def)
next
  case (Suc n)
  then obtain a w1 where a: "generate_syllable ph w = Inr (a, w1)"
    using generate_syllable_total by blast
  from Suc obtain b w' where "generate_syllables ph n w1 = Inr (b, w')" by blast
  with a show ?case by (simp add: py_return_def)
qed

lemma py_randint_1_3:
  "py_randint 1 3 w = Inr (1 + int (draws w 0 mod 3), w\<lparr>draws := next_draws (draws w)\<rparr>)"
  by (simp add: py_randint_def randbelow_def py_bind_def py_return_def)

lemma generate_word_None:
  "generate_word ph None w =
   generate_syllables ph (Suc (draws w 0 mod 3)) (w\<lparr>draws := next_draws (draws w)\<rparr>)"
proof -
  have "nat (1 + int (draws w 0 mod 3)) = Suc (draws w 0 mod 3)" by simp
  then show ?thesis by (simp add: generate_word_def py_randint_1_3)
qed

lemma generate_word_None_fits:
  "generate_word ph None w = Inr (s, w') \<Longrightarrow> \<exists>n \<in> {1, 2, 3}. word_fits ph n s"
proof -
  assume "generate_word ph None w = Inr (s, w')"
  then have "word_fits ph (Suc (draws w 0 mod 3)) s"
    by (simp add: generate_word_None generate_syllables_sound)
  moreover have "Suc (draws w 0 mod 3) \<in> {1, 2, 3}" by auto
  ultimately show ?thesis by blast
qed

text \<open>
  C3: a word that \<open>generate_word\<close> returns consists of one to three syllables when no
  count is given, and of \<open>nat n\<close> syllables for an explicit count \<open>n\<close>; each syllable
  follows one of the patterns, with one grapheme of the matching set per slot.
\<close>

theorem generate_word_sound:
  assumes "generate_word ph c w = Inr (s, w')"
  shows "case c of None \<Rightarrow> \<exists>n \<in> {1, 2, 3}. word_fits ph n s | Some k \<Rightarrow> word_fits ph (nat k) s"
proof (cases c)
  case None
  with assms have "generate_word ph None w = Inr (s, w')" by simp
  then have "\<exists>n \<in> {1, 2, 3}. word_fits ph n s" by (rule generate_word_None_fits)
  with None show ?thesis by simp
next
  case (Some k)
  with assms show ?thesis by (simp add: generate_word_def generate_syllables_sound)
qed

text \<open>
  C4: conversely, every string made of one to three syllables that follow the patterns is
  the result of \<open>generate_word\<close> for some random draws, which are consumed exactly.
\<close>

theorem generate_word_complete:
  assumes "word_fits ph n s" and "n \<in> {1, 2, 3}"
  shows "\<exists>ds. generate_word ph None (w\<lparr>draws := prepend ds r\<rparr>) = Inr (s, w\<lparr>draws := r\<rparr>)"
proof -
  from generate_syllables_complete [OF assms(1), where w = w and r = r] obtain ds where
    ds: "generate_syllables ph n (w\<lparr>draws := prepend ds r\<rparr>) = Inr (s, w\<lparr>draws := r\<rparr>)" by blast
  from assms(2) have "nat (1 + int ((n - 1) mod 3)) = n" by auto
  with ds have "generate_word ph None (w\<lparr>draws := prepend ((n - 1) # ds) r\<rparr>) = Inr (s, w\<lparr>draws := r\<rparr>)"
    by (simp add: generate_word_def py_randint_1_3)
  then show ?thesis by blast
qed

lemma generate_word_total:
  assumes "inventory_ok ph"
  shows "\<exists>s w'. generate_word ph c w = Inr (s, w')"
proof (cases c)
  case None
  from generate_syllables_total [OF assms] obtain s w' where
    "generate_syllables ph (nat (1 + int (draws w 0 mod 3))) (w\<lparr>draws := next_draws (draws w)\<rparr>)
     = Inr (s, w')" by blast
  with None show ?thesis by (auto simp: generate_word_def py_randint_1_3)
next
  case (Some k)
  from generate_syllables_total [OF assms] obtain s w' where
    "generate_syllables ph (nat k) w = Inr (s, w')" by blast
  with Some show ?thesis by (auto simp: generate_word_def)
qed

subsection \<open>Generation only consumes random draws\<close>

lemma draws_only_draw_slots [frame_intros]: "draws_only (draw_slots ph p)"
  by (induction p) (simp_all add: frame_intros)

lemma draws_only_generate_syllable [frame_intros]: "draws_only (generate_syllable ph)"
  unfolding generate_syllable_def by (intro frame_intros)

lemma draws_only_generate_syllables [frame_intros]: "draws_only (generate_syllables ph n)"
  by (induction n) (simp_all add: frame_intros)

lemma draws_only_generate_word [frame_intros]: "draws_only (generate_word ph c)"
  unfolding generate_word_def by (intro frame_intros) (simp split: option.split add: frame_intros)

subsection \<open>Inventory edits\<close>

lemmas inventory_edit_defs = add_consonant_def remove_consonant_def add_vowel_def remove_vowel_def

lemma apply_edit_patterns:
  "apply_edit e ph = Inr ph' \<Longrightarrow> syllable_patterns ph' = syllable_patterns ph"
  by (cases e) (auto simp: inventory_edit_defs split: if_splits sum.splits)

lemma apply_edit_phon_inv: "apply_edit e ph = Inr ph' \<Longrightarrow> phon_inv ph \<Longrightarrow> phon_inv ph'"
  by (cases e) (auto simp: phon_inv_def inventory_edit_defs distinct_removeAll
      split: if_splits sum.splits)

lemma apply_edit_total: "\<exists>ph'. apply_edit e ph = Inr ph'"
  by (cases e) (simp_all add: inventory_edit_defs)

lemma apply_edit_abs:
  "apply_edit e ph = Inr ph' \<Longrightarrow> inventory_abs ph' = spec_edit e (inventory_abs ph)"
  by (cases e) (auto simp: inventory_abs_def inventory_edit_defs split: if_splits sum.splits)

text \<open>
  C12: no inventory edit raises (the membership test keeps \<open>set.remove\<close> from
  raising \<open>KeyError\<close>), and each acts on the two grapheme sets as the specification
  says: adding inserts a non-empty grapheme (the empty input changes nothing), removing
  deletes it (an absent grapheme changes nothing), and the other set is untouched.
\<close>

theorem apply_edit_refines:
  "\<exists>ph'. apply_edit e ph = Inr ph' \<and> inventory_abs ph' = spec_edit e (inventory_abs ph)"
  using apply_edit_total apply_edit_abs by blast

subsection \<open>Witnesses\<close>

theorem generate_word_sound_witness:
  "generate_word default_phonology None \<lparr>stdin = [], draws = (\<lambda>_. 0), transcript = ([] :: unit list)\<rparr>
     = Inr (''pi'', \<lparr>stdin = [], draws = (\<lambda>_. 0), transcript = []\<rparr>)
   \<and> (\<exists>n \<in> {1, 2, 3}. word_fits default_phonology n ''pi'')"
proof -
  have e: "generate_word default_phonology None \<lparr>stdin = [], draws = (\<lambda>_. 0), transcript = ([] :: unit list)\<rparr>
     = Inr (''pi'', \<lparr>stdin = [], draws = (\<lambda>_. 0), transcript = []\<rparr>)"
    by (simp add: generate_word_def generate_syllable_def py_randint_1_3 py_choice_nonempty
        default_phonology_def slot_pool_def py_return_def)
  from generate_word_sound [OF e] have "\<exists>n \<in> {1, 2, 3}. word_fits default_phonology n ''pi''"
    by simp
  with e show ?thesis by simp
qed

theorem generate_word_complete_witness:
  "\<exists>ds. generate_word default_phonology None
          \<lparr>stdin = [], draws = prepend ds (\<lambda>_. 0), transcript = ([] :: unit list)\<rparr>
        = Inr (''kanu'', \<lparr>stdin = [], draws = (\<lambda>_. 0), transcript = []\<rparr>)"
proof -
  have "word_fits default_phonology 2 ''kanu''"
    by code_simp
  from generate_word_complete [OF this, where w = "\<lparr>stdin = [], draws = (\<lambda>_. 0), transcript = ([] :: unit list)\<rparr>" and r = "\<lambda>_. 0"]
  show ?thesis by simp
qed

theorem generate_syllable_raises_witness:
  "generate_syllable (default_phonology\<lparr>consonants := []\<rparr>)
     \<lparr>stdin = [], draws = (\<lambda>_. 0), transcript = ([] :: unit list)\<rparr> = Inl IndexError"
proof -
  have "syllable_patterns (default_phonology\<lparr>consonants := []\<rparr>) ! (0 mod 4) = ''CV''"
    by (simp add: default_phonology_def)
  then show ?thesis
    using generate_syllable_raises [of "default_phonology\<lparr>consonants := []\<rparr>"
        "\<lparr>stdin = [], draws = (\<lambda>_. 0), transcript = ([] :: unit list)\<rparr>" IndexError]
    by (simp add: default_phonology_def)
qed

end
