(* ===== verification/Morphology.thy ===== *)
theory Morphology
  imports Prelude "HOL-Library.Sublist"
begin

text \<open>
  \<open>MorphologyRule\<close> and \<open>MorphologySystem\<close> (\<open>src/truku_creator_game.py\<close>, lines
  21--38) and the seeding of the three default rules on leaving the morphology menu (lines
  119--124).  A rule's type is the free text the user typed; only \<open>''prefix''\<close> and
  \<open>''suffix''\<close> have an effect.

  \<open>apply_morphology\<close> scans the rules in insertion order.  A rule whose name matches
  but whose type is neither of the two does not end the scan: the loop goes on to the
  next rule, so a later rule of the same name can apply.  The lemmas give the result as
  a search for the first rule that matches by name \<^emph>\<open>and\<close> has an effective type
  (\<open>effective_rule\<close>), and derive the specification's prefix, suffix and no-match
  cases from it.
\<close>

record morphology_rule =
  name :: string
  rule_type :: string
  marker :: string
  meaning :: string

record morphology_system =
  rules :: "morphology_rule list"

definition add_rule ::
  "string \<Rightarrow> string \<Rightarrow> string \<Rightarrow> string \<Rightarrow> morphology_system \<Rightarrow> morphology_system" where
  "add_rule n t m d ms =
     ms\<lparr>rules := rules ms @ [\<lparr>name = n, rule_type = t, marker = m, meaning = d\<rparr>]\<rparr>"

text \<open>The \<open>for\<close> loop of \<open>apply_morphology\<close> (lines 34--38).\<close>

fun apply_rules :: "morphology_rule list \<Rightarrow> string \<Rightarrow> string \<Rightarrow> string" where
  "apply_rules [] base_word rule_name = base_word"
| "apply_rules (r # rs) base_word rule_name =
     (if name r = rule_name then
        (if rule_type r = ''prefix'' then marker r @ base_word
         else if rule_type r = ''suffix'' then base_word @ marker r
         else apply_rules rs base_word rule_name)
      else apply_rules rs base_word rule_name)"

definition apply_morphology :: "morphology_system \<Rightarrow> string \<Rightarrow> string \<Rightarrow> string" where
  "apply_morphology ms base_word rule_name = apply_rules (rules ms) base_word rule_name"

text \<open>
  Lines 120--123: on leaving the menu, the defaults are added only when there is no rule
  at all.  The glosses are the UTF-8 bytes of the Chinese words in the source.
\<close>

definition seed_default_rules :: "morphology_system \<Rightarrow> morphology_system" where
  "seed_default_rules ms =
     (if rules ms = [] then
        add_rule ''nominal'' ''suffix'' ''-an''
          [CHR 0xE5, CHR 0x90, CHR 0x8D, CHR 0xE8, CHR 0xA9, CHR 0x9E, CHR 0xE5, CHR 0x8C, CHR 0x96]
         (add_rule ''past'' ''suffix'' ''-in''
           [CHR 0xE5, CHR 0xAE, CHR 0x8C, CHR 0xE6, CHR 0x88, CHR 0x90, CHR 0xE9, CHR 0xAB, CHR 0x94]
          (add_rule ''negative'' ''prefix'' ''ma-''
            [CHR 0xE5, CHR 0x90, CHR 0xA6, CHR 0xE5, CHR 0xAE, CHR 0x9A] ms))
      else ms)"

subsection \<open>Reference description\<close>

text \<open>A rule takes effect for a name when it carries the name and an effective type.\<close>

definition effective_rule :: "string \<Rightarrow> morphology_rule \<Rightarrow> bool" where
  "effective_rule rule_name r \<longleftrightarrow>
     name r = rule_name \<and> (rule_type r = ''prefix'' \<or> rule_type r = ''suffix'')"

definition affix :: "morphology_rule \<Rightarrow> string \<Rightarrow> string" where
  "affix r base_word =
     (if rule_type r = ''prefix'' then marker r @ base_word else base_word @ marker r)"

section \<open>Properties\<close>

lemma apply_rules_find:
  "apply_rules rs base_word rule_name =
   (case find (effective_rule rule_name) rs of None \<Rightarrow> base_word | Some r \<Rightarrow> affix r base_word)"
  by (induction rs) (auto simp: effective_rule_def affix_def)

lemma apply_rules_skip:
  "\<not> list_ex (effective_rule rule_name) pre \<Longrightarrow>
   apply_rules (pre @ rs) base_word rule_name = apply_rules rs base_word rule_name"
  by (induction pre) (auto simp: effective_rule_def)

text \<open>
  C1: \<open>apply_morphology\<close> returns the base word with the affix of the first rule that
  carries the requested name and the type \<open>prefix\<close> or \<open>suffix\<close> (a prefix rule puts
  its marker in front, a suffix rule behind), and the base word unchanged when there is
  no such rule.
\<close>

theorem apply_morphology_first_effective:
  "apply_morphology ms base_word rule_name =
   (case find (effective_rule rule_name) (rules ms) of
      None \<Rightarrow> base_word
    | Some r \<Rightarrow> if rule_type r = ''prefix'' then marker r @ base_word else base_word @ marker r)"
  by (simp add: apply_morphology_def apply_rules_find affix_def split: option.split)

text \<open>
  C6: when the first effective rule for a name is a prefix rule, the result is its marker
  followed by the word and ends with the word; when it is a suffix rule, the result is the
  word followed by its marker and starts with the word.
\<close>

theorem apply_morphology_affix:
  assumes "rules ms = pre @ r # post" and "\<not> list_ex (effective_rule rule_name) pre"
    and "effective_rule rule_name r"
  shows "(rule_type r = ''prefix'' \<longrightarrow>
            apply_morphology ms base_word rule_name = marker r @ base_word
          \<and> suffix base_word (apply_morphology ms base_word rule_name))
       \<and> (rule_type r = ''suffix'' \<longrightarrow>
            apply_morphology ms base_word rule_name = base_word @ marker r
          \<and> prefix base_word (apply_morphology ms base_word rule_name))"
proof -
  have "apply_morphology ms base_word rule_name = affix r base_word"
    using assms by (auto simp: apply_morphology_def apply_rules_skip effective_rule_def affix_def)
  then show ?thesis by (auto simp: affix_def suffix_def)
qed

theorem apply_morphology_affix_witness:
  "apply_morphology \<lparr>rules = [\<lparr>name = ''past'', rule_type = ''suffix'', marker = ''-in'',
                               meaning = []\<rparr>]\<rparr> ''mita'' ''past'' = ''mita-in''"
proof -
  let ?r = "\<lparr>name = ''past'', rule_type = ''suffix'', marker = ''-in'', meaning = []\<rparr>"
  have "rules \<lparr>rules = [?r]\<rparr> = [] @ ?r # []" and "\<not> list_ex (effective_rule ''past'') []"
    and "effective_rule ''past'' ?r" by (simp_all add: effective_rule_def)
  from apply_morphology_affix [OF this, where base_word = "''mita''"]
  show ?thesis by simp
qed

text \<open>C7: a name that no rule carries leaves the word unchanged, without an error.\<close>

theorem apply_morphology_unmatched:
  assumes "\<not> list_ex (\<lambda>r. name r = rule_name) (rules ms)"
  shows "apply_morphology ms base_word rule_name = base_word"
proof -
  from assms have "find (effective_rule rule_name) (rules ms) = None"
    by (auto simp: find_None_iff effective_rule_def list_ex_iff)
  then show ?thesis by (simp add: apply_morphology_def apply_rules_find)
qed

theorem apply_morphology_unmatched_witness:
  "apply_morphology \<lparr>rules = [\<lparr>name = ''past'', rule_type = ''suffix'', marker = ''-in'',
                               meaning = []\<rparr>]\<rparr> ''mita'' ''plural'' = ''mita''"
  by (rule apply_morphology_unmatched) simp

text \<open>
  C8: a rule that carries the requested name but whose type is neither \<open>prefix\<close> nor
  \<open>suffix\<close> does not stop the search: the result is that of the remaining rules, so a
  later rule of the same name applies.
\<close>

theorem apply_morphology_skips_other_types:
  assumes "name r = rule_name" and "rule_type r \<noteq> ''prefix''" and "rule_type r \<noteq> ''suffix''"
  shows "apply_morphology (ms\<lparr>rules := r # rs\<rparr>) base_word rule_name =
         apply_morphology (ms\<lparr>rules := rs\<rparr>) base_word rule_name"
  using assms by (simp add: apply_morphology_def)

theorem apply_morphology_skips_other_types_witness:
  "apply_morphology \<lparr>rules = [\<lparr>name = ''past'', rule_type = ''Suffix'', marker = ''-ux'', meaning = []\<rparr>,
                              \<lparr>name = ''past'', rule_type = ''suffix'', marker = ''-in'', meaning = []\<rparr>]\<rparr>
     ''mita'' ''past'' = ''mita-in''"
proof -
  let ?bad = "\<lparr>name = ''past'', rule_type = ''Suffix'', marker = ''-ux'', meaning = []\<rparr>"
  let ?good = "\<lparr>name = ''past'', rule_type = ''suffix'', marker = ''-in'', meaning = []\<rparr>"
  have "apply_morphology (\<lparr>rules = []\<rparr>\<lparr>rules := ?bad # [?good]\<rparr>) ''mita'' ''past'' =
        apply_morphology (\<lparr>rules = []\<rparr>\<lparr>rules := [?good]\<rparr>) ''mita'' ''past''"
    by (rule apply_morphology_skips_other_types) simp_all
  then show ?thesis by (simp add: apply_morphology_def)
qed

end
