(* ===== verification/Syntax.thy ===== *)
theory Syntax
  imports Prelude
begin

text \<open>
  \<open>SyntaxSystem\<close> (\<open>src/truku_creator_game.py\<close>, lines 40--49), the two settings
  the syntax stage reads (lines 145--148) and the question form it prints (line 157).
  The word order is the string the user typed, accepted only when it is one of the four
  orders; an unknown order falls back to SVO in \<open>generate_sentence\<close>.

  The abstract view is the datatype \<open>order\<close> and \<open>arrange\<close>, the sequence of the three
  slots that an order prescribes.  The lemmas show that splitting a generated sentence on
  whitespace gives the arranged inputs' own tokens, with no hypothesis on the inputs; that
  for words without whitespace the sentence is exactly the arranged words joined by single
  spaces; and what an empty object does: in VOS order it leaves a double space inside the
  sentence, which \<open>strip()\<close> does not remove.
\<close>

record syntax_system =
  word_order :: string
  question_marker :: string

definition default_syntax :: syntax_system where
  "default_syntax = \<lparr>word_order = ''VOS'', question_marker = ''ka''\<rparr>"

text \<open>\<open>f"{a} {b} {c}".strip()\<close> for the four orders and the fallback.\<close>

definition generate_sentence :: "syntax_system \<Rightarrow> string \<Rightarrow> string \<Rightarrow> string \<Rightarrow> string" where
  "generate_sentence syn subject verb obj =
     (if word_order syn = ''VOS'' then py_strip (verb @ '' '' @ obj @ '' '' @ subject)
      else if word_order syn = ''SVO'' then py_strip (subject @ '' '' @ verb @ '' '' @ obj)
      else if word_order syn = ''SOV'' then py_strip (subject @ '' '' @ obj @ '' '' @ verb)
      else if word_order syn = ''VSO'' then py_strip (verb @ '' '' @ subject @ '' '' @ obj)
      else py_strip (subject @ '' '' @ verb @ '' '' @ obj))"

definition word_orders :: "string list" where
  "word_orders = [''VOS'', ''SVO'', ''SOV'', ''VSO'']"

text \<open>Lines 146 and 148: an unknown order and an empty marker are ignored.\<close>

definition set_word_order :: "string \<Rightarrow> syntax_system \<Rightarrow> syntax_system" where
  "set_word_order order syn =
     (if order \<in> set word_orders then syn\<lparr>word_order := order\<rparr> else syn)"

definition set_question_marker :: "string \<Rightarrow> syntax_system \<Rightarrow> syntax_system" where
  "set_question_marker q syn = (if q \<noteq> [] then syn\<lparr>question_marker := q\<rparr> else syn)"

text \<open>Line 157: \<open>f"{sentence} {self.syntax.question_marker}"\<close>.\<close>

definition question_form :: "syntax_system \<Rightarrow> string \<Rightarrow> string" where
  "question_form syn sentence = sentence @ '' '' @ question_marker syn"

subsection \<open>Abstract word orders\<close>

datatype order = VOS | SVO | SOV | VSO

definition order_of :: "string \<Rightarrow> order" where
  "order_of s =
     (if s = ''VOS'' then VOS else if s = ''SVO'' then SVO
      else if s = ''SOV'' then SOV else if s = ''VSO'' then VSO else SVO)"

fun arrange :: "order \<Rightarrow> 'a \<Rightarrow> 'a \<Rightarrow> 'a \<Rightarrow> 'a list" where
  "arrange VOS subject verb obj = [verb, obj, subject]"
| "arrange SVO subject verb obj = [subject, verb, obj]"
| "arrange SOV subject verb obj = [subject, obj, verb]"
| "arrange VSO subject verb obj = [verb, subject, obj]"

definition valid_order :: "syntax_system \<Rightarrow> bool" where
  "valid_order syn \<longleftrightarrow> word_order syn \<in> set word_orders"

text \<open>\<open>" ".join(words)\<close>.\<close>

fun join_words :: "string list \<Rightarrow> string" where
  "join_words [] = []"
| "join_words [w] = w"
| "join_words (w # ws) = w @ '' '' @ join_words ws"

section \<open>Properties\<close>

lemma generate_sentence_arrange:
  "generate_sentence syn subject verb obj =
   py_strip (join_words (arrange (order_of (word_order syn)) subject verb obj))"
  by (simp add: generate_sentence_def order_of_def)

lemma py_split_join_words: "py_split (join_words ws) = concat (map py_split ws)"
  by (induction ws rule: join_words.induct) (simp_all add: py_split_space_append, simp add: py_split_def)

lemma py_split_no_space_all:
  "list_all no_space ws \<Longrightarrow> concat (map py_split ws) = filter (\<lambda>w. w \<noteq> []) ws"
  by (induction ws) (auto simp: py_split_no_space)

lemma no_space_ends:
  "no_space w \<Longrightarrow> w \<noteq> [] \<Longrightarrow> \<not> py_isspace (hd w) \<and> \<not> py_isspace (last w)"
  by (auto simp: no_space_def list_all_iff)

lemma py_strip_spaced:
  assumes "a \<noteq> []" "c \<noteq> []" "no_space a" "no_space c"
  shows "py_strip (a @ sep @ c) = a @ sep @ c"
proof -
  from assms have "\<not> py_isspace (hd (a @ sep @ c))" and "\<not> py_isspace (last (a @ sep @ c))"
    by (simp_all add: no_space_ends)
  then show ?thesis by (intro py_strip_id) simp
qed

lemma py_strip_trailing_blank: "py_strip (x @ '' '') = py_strip x"
proof (cases "\<exists>c \<in> set x. \<not> py_isspace c")
  case True
  then obtain c where "c \<in> set x" "\<not> py_isspace c" by blast
  then have "dropWhile py_isspace (x @ '' '') = dropWhile py_isspace x @ '' ''"
    by (rule dropWhile_append1)
  then show ?thesis by (simp add: py_strip_def)
next
  case False
  then have all: "\<forall>c \<in> set x. py_isspace c" by blast
  then have d1: "dropWhile py_isspace (x @ '' '') = []" and d2: "dropWhile py_isspace x = []"
    by simp_all
  show ?thesis unfolding py_strip_def d1 d2 by simp
qed

lemma join_words_ends:
  "ws \<noteq> [] \<Longrightarrow> list_all (\<lambda>w. w \<noteq> []) ws \<Longrightarrow>
   join_words ws \<noteq> [] \<and> hd (join_words ws) = hd (hd ws) \<and> last (join_words ws) = last (last ws)"
  by (induction ws rule: join_words.induct) auto

lemma py_strip_join_words:
  assumes "ws \<noteq> []" and "list_all (\<lambda>w. w \<noteq> [] \<and> no_space w) ws"
  shows "py_strip (join_words ws) = join_words ws"
proof (rule py_strip_id)
  from assms have "list_all (\<lambda>w. w \<noteq> []) ws" by (simp add: list_all_iff)
  with assms(1) have e: "join_words ws \<noteq> [] \<and> hd (join_words ws) = hd (hd ws)
      \<and> last (join_words ws) = last (last ws)" by (rule join_words_ends)
  from assms have "hd ws \<noteq> [] \<and> no_space (hd ws)" and "last ws \<noteq> [] \<and> no_space (last ws)"
    by (simp_all add: list_all_iff)
  with e show "join_words ws = [] \<or> \<not> py_isspace (hd (join_words ws)) \<and> \<not> py_isspace (last (join_words ws))"
    by (simp add: no_space_ends)
qed

text \<open>
  C2: splitting a generated sentence on whitespace gives the tokens of the three inputs in
  the order the word order prescribes (an unknown order counts as SVO), whatever the
  inputs are: the sentence is the arrangement of the inputs and nothing else.
\<close>

theorem generate_sentence_tokens:
  "py_split (generate_sentence syn subject verb obj) =
   concat (map py_split (arrange (order_of (word_order syn)) subject verb obj))"
  by (simp add: generate_sentence_arrange py_split_join_words)

text \<open>
  C10: for inputs without whitespace, the tokens of the sentence are exactly the non-empty
  inputs, in the order the word order prescribes.
\<close>

theorem generate_sentence_words:
  assumes "no_space subject" "no_space verb" "no_space obj"
  shows "py_split (generate_sentence syn subject verb obj) =
         filter (\<lambda>w. w \<noteq> []) (arrange (order_of (word_order syn)) subject verb obj)"
proof -
  from assms have "list_all no_space (arrange (order_of (word_order syn)) subject verb obj)"
    by (cases "order_of (word_order syn)") simp_all
  then show ?thesis
    by (simp add: generate_sentence_arrange py_split_join_words py_split_no_space_all)
qed

text \<open>
  C9: for non-empty inputs without whitespace, the sentence is the three words in the
  prescribed order joined by single spaces (VOS: verb, object, subject; SVO: subject,
  verb, object; SOV: subject, object, verb; VSO: verb, subject, object).
\<close>

theorem generate_sentence_exact:
  assumes "subject \<noteq> []" "verb \<noteq> []" "obj \<noteq> []"
    and "no_space subject" "no_space verb" "no_space obj"
  shows "generate_sentence syn subject verb obj =
         join_words (arrange (order_of (word_order syn)) subject verb obj)"
proof -
  let ?ws = "arrange (order_of (word_order syn)) subject verb obj"
  from assms have "?ws \<noteq> [] \<and> list_all (\<lambda>w. w \<noteq> [] \<and> no_space w) ?ws"
    by (cases "order_of (word_order syn)") simp_all
  then show ?thesis by (simp add: generate_sentence_arrange py_strip_join_words)
qed

text \<open>
  C11: with an empty object, \<open>strip()\<close> removes the blank at the end of SVO and VSO
  sentences, but in VOS and SOV order, where the object sits in the middle, two spaces
  are left between the other two words.
\<close>

theorem generate_sentence_empty_object:
  assumes "subject \<noteq> []" "verb \<noteq> []" "no_space subject" "no_space verb"
  shows "generate_sentence syn subject verb [] =
         (case order_of (word_order syn) of
            VOS \<Rightarrow> verb @ ''  '' @ subject
          | SVO \<Rightarrow> subject @ '' '' @ verb
          | SOV \<Rightarrow> subject @ ''  '' @ verb
          | VSO \<Rightarrow> verb @ '' '' @ subject)"
proof (cases "order_of (word_order syn)")
  case VOS
  with assms show ?thesis
    using py_strip_spaced [of verb subject "''  ''"] by (simp add: generate_sentence_arrange)
next
  case SVO
  have "py_strip ((subject @ '' '' @ verb) @ '' '') = py_strip (subject @ '' '' @ verb)"
    by (rule py_strip_trailing_blank)
  with assms py_strip_spaced [of subject verb "'' ''"]
  have "py_strip (subject @ '' '' @ verb @ '' '') = subject @ '' '' @ verb" by simp
  with SVO show ?thesis by (simp add: generate_sentence_arrange)
next
  case SOV
  with assms show ?thesis
    using py_strip_spaced [of subject verb "''  ''"] by (simp add: generate_sentence_arrange)
next
  case VSO
  have "py_strip ((verb @ '' '' @ subject) @ '' '') = py_strip (verb @ '' '' @ subject)"
    by (rule py_strip_trailing_blank)
  with assms py_strip_spaced [of verb subject "'' ''"]
  have "py_strip (verb @ '' '' @ subject @ '' '') = verb @ '' '' @ subject" by simp
  with VSO show ?thesis by (simp add: generate_sentence_arrange)
qed

theorem generate_sentence_words_witness:
  "py_split (generate_sentence default_syntax ''laqi'' ''mita'' []) = [''mita'', ''laqi'']"
proof -
  have "no_space ''laqi''" "no_space ''mita''" "no_space []"
    by (simp_all add: no_space_def py_isspace_def)
  from generate_sentence_words [OF this, where syn = default_syntax]
  show ?thesis by (simp add: default_syntax_def order_of_def)
qed

theorem generate_sentence_exact_witness:
  "generate_sentence default_syntax ''laqi'' ''mita'' ''bubu'' = ''mita bubu laqi''
   \<and> generate_sentence (default_syntax\<lparr>word_order := ''SOV''\<rparr>) ''laqi'' ''mita'' ''bubu''
     = ''laqi bubu mita''"
proof -
  have ne: "''laqi'' \<noteq> []" "''mita'' \<noteq> []" "''bubu'' \<noteq> []" by simp_all
  have ns: "no_space ''laqi''" "no_space ''mita''" "no_space ''bubu''"
    by (simp_all add: no_space_def py_isspace_def)
  show ?thesis
    using generate_sentence_exact [OF ne ns, where syn = default_syntax]
      generate_sentence_exact [OF ne ns, where syn = "default_syntax\<lparr>word_order := ''SOV''\<rparr>"]
    by (simp add: default_syntax_def order_of_def)
qed

theorem generate_sentence_empty_object_witness:
  "generate_sentence default_syntax ''laqi'' ''mita'' [] = ''mita  laqi''"
proof -
  have ne: "''laqi'' \<noteq> []" "''mita'' \<noteq> []" by simp_all
  have ns: "no_space ''laqi''" "no_space ''mita''" by (simp_all add: no_space_def py_isspace_def)
  from generate_sentence_empty_object [OF ne ns, where syn = default_syntax]
  show ?thesis by (simp add: default_syntax_def order_of_def)
qed

end
