(* ===== verification/Game.thy ===== *)
theory Game
  imports Phonology Morphology Syntax "HOL-Library.Multiset"
begin

text \<open>
  \<open>LanguageCreatorGame\<close> (\<open>src/truku_creator_game.py\<close>, lines 51--179): the
  orchestrator that owns one instance of each component and the vocabulary, and runs the
  stages in order.  Every stage is a computation in the world of \<open>Prelude\<close>: it reads
  its menu choices from standard input, draws random numbers, and appends what it prints
  of the generated language (the sample words, the morphology demonstrations, the sample
  sentences with their question forms, and the showcase) to the transcript as
  \<open>event\<close>s.  Prompts, banners and confirmation messages are not recorded.

  The two menu loops (phonology, morphology) run until a line that is not a menu code is
  read; they are \<^theory_text>\<open>function\<close>s whose termination measure is the number of input
  lines left, since every iteration reads at least one line and an exhausted input
  raises \<open>EOFError\<close>.

  The lemmas characterise each stage by what it consumes, what it prints and how it
  changes the game: the menus on input that encodes a list of edits or rules, the five
  sample words, the partition of the unknown words, the bias of the coin, the settings
  and the three sentences of the syntax stage, and the exceptions the menus can raise.
  \<open>picked\<close> and \<open>rule_lines\<close> are the abstract descriptions these statements use.
\<close>

type_synonym vocab = "string \<Rightarrow> string list"

record game =
  phonology :: phonology
  morphology :: morphology_system
  syntax_sys :: syntax_system
  vocab :: vocab

text \<open>What the game prints of the language built so far.\<close>

datatype event =
    Sample_word nat string
  | Past_demo string string
  | Nominal_demo string string
  | Rules_listed "morphology_rule list"
  | Sentence_pair nat string string
  | Showcase_line nat string

type_synonym 'a game_io = "('a, event) py"

text \<open>\<open>__init__\<close> (lines 52--56); \<open>defaultdict(list)\<close> is the map to \<open>[]\<close>.\<close>

definition init_game :: game where
  "init_game =
     \<lparr>phonology = default_phonology, morphology = \<lparr>rules = []\<rparr>, syntax_sys = default_syntax,
      vocab = (\<lambda>_. [])\<rparr>"

definition display_welcome :: "unit game_io" where
  "display_welcome = py_bind py_input (\<lambda>_. py_return ())"

subsection \<open>Stage 1: phonology (lines 66--96)\<close>

definition edit_of_choice :: "string \<Rightarrow> (string \<Rightarrow> inventory_edit) option" where
  "edit_of_choice choice =
     (if choice = ''1'' then Some AddConsonant
      else if choice = ''2'' then Some RemoveConsonant
      else if choice = ''3'' then Some AddVowel
      else if choice = ''4'' then Some RemoveVowel
      else None)"

text \<open>The input lines that select an edit in the menu (the encoding of spec section 6).\<close>

fun edit_code :: "inventory_edit \<Rightarrow> string" where
  "edit_code (AddConsonant _) = ''1''"
| "edit_code (RemoveConsonant _) = ''2''"
| "edit_code (AddVowel _) = ''3''"
| "edit_code (RemoveVowel _) = ''4''"

fun edit_arg :: "inventory_edit \<Rightarrow> string" where
  "edit_arg (AddConsonant c) = c"
| "edit_arg (RemoveConsonant c) = c"
| "edit_arg (AddVowel v) = v"
| "edit_arg (RemoveVowel v) = v"

definition edit_lines :: "inventory_edit \<Rightarrow> string list" where
  "edit_lines e = [edit_code e, edit_arg e]"

function phonology_menu :: "phonology \<Rightarrow> phonology game_io" where
  "phonology_menu ph w =
     (case py_input w of
        Inl e \<Rightarrow> Inl e
      | Inr (line, w1) \<Rightarrow>
          (case edit_of_choice (py_strip line) of
             None \<Rightarrow> Inr (ph, w1)
           | Some edit \<Rightarrow>
               (case py_input w1 of
                  Inl e \<Rightarrow> Inl e
                | Inr (arg, w2) \<Rightarrow>
                    (case apply_edit (edit (py_strip arg)) ph of
                       Inl e \<Rightarrow> Inl e
                     | Inr ph' \<Rightarrow> phonology_menu ph' w2))))"
  by pat_completeness auto
termination
  by (relation "measure (\<lambda>(ph, w). length (stdin w))")
    (auto simp: py_input_def split: list.splits)

text \<open>Lines 92--95: five words, each printed and appended to \<open>vocab["unknown"]\<close>.\<close>

fun sample_words :: "phonology \<Rightarrow> nat \<Rightarrow> nat \<Rightarrow> string list game_io" where
  "sample_words ph i 0 = py_return []"
| "sample_words ph i (Suc n) =
     py_bind (generate_word ph None) (\<lambda>w.
     py_bind (py_print (Sample_word (Suc i) w)) (\<lambda>_.
     py_bind (sample_words ph (Suc i) n) (\<lambda>ws. py_return (w # ws))))"

definition level_1_phonology :: "game \<Rightarrow> game game_io" where
  "level_1_phonology g =
     py_bind (phonology_menu (phonology g)) (\<lambda>ph.
     py_bind (sample_words ph 0 5) (\<lambda>ws.
     py_bind py_input (\<lambda>_.
     py_return (g\<lparr>phonology := ph, vocab := (vocab g)(''unknown'' := vocab g ''unknown'' @ ws)\<rparr>))))"

subsection \<open>Stage 2: morphology (lines 98--137)\<close>

definition read_rule :: "(string \<times> string \<times> string \<times> string) game_io" where
  "read_rule =
     py_bind (py_input_n 4) (\<lambda>ls.
     py_return (py_strip (ls ! 0), py_strip (ls ! 1), py_strip (ls ! 2), py_strip (ls ! 3)))"

function morphology_menu :: "morphology_system \<Rightarrow> morphology_system game_io" where
  "morphology_menu ms w =
     (case py_input w of
        Inl e \<Rightarrow> Inl e
      | Inr (line, w1) \<Rightarrow>
          (if py_strip line = ''1'' then
             (case read_rule w1 of
                Inl e \<Rightarrow> Inl e
              | Inr ((n, t, m, d), w2) \<Rightarrow> morphology_menu (add_rule n t m d ms) w2)
           else if py_strip line = ''2'' then
             (case py_print (Rules_listed (rules ms)) w1 of
                Inl e \<Rightarrow> Inl e
              | Inr (_, w2) \<Rightarrow> morphology_menu ms w2)
           else Inr (seed_default_rules ms, w1)))"
  by pat_completeness auto
termination
  by (relation "measure (\<lambda>(ms, w). length (stdin w))")
    (auto simp: py_input_def read_rule_def py_print_def py_bind_eq_Inr py_return_def
      split: list.splits dest!: py_input_n_length)

text \<open>
  Lines 126--128: \<open>random.random() > 0.5\<close> sends a word to the verbs, otherwise to the
  nouns; then the unknown bucket is cleared.
\<close>

definition coin_verb :: "real \<Rightarrow> bool" where
  "coin_verb r \<longleftrightarrow> r > 0.5"

fun reclassify :: "string list \<Rightarrow> vocab \<Rightarrow> vocab game_io" where
  "reclassify [] v = py_return v"
| "reclassify (x # xs) v =
     py_bind py_random (\<lambda>r.
       reclassify xs
         (if coin_verb r then v(''verb'' := v ''verb'' @ [x]) else v(''noun'' := v ''noun'' @ [x])))"

definition morphology_demo :: "morphology_system \<Rightarrow> vocab \<Rightarrow> unit game_io" where
  "morphology_demo ms v =
     py_bind
       (if v ''verb'' \<noteq> [] then
          py_bind (py_choice (v ''verb'')) (\<lambda>x. py_print (Past_demo x (apply_morphology ms x ''past'')))
        else py_return ())
       (\<lambda>_. if v ''noun'' \<noteq> [] then
              py_bind (py_choice (v ''noun''))
                (\<lambda>x. py_print (Nominal_demo x (apply_morphology ms x ''nominal'')))
            else py_return ())"

definition level_2_morphology :: "game \<Rightarrow> game game_io" where
  "level_2_morphology g =
     py_bind (morphology_menu (morphology g)) (\<lambda>ms.
     py_bind (reclassify (vocab g ''unknown'') (vocab g)) (\<lambda>v.
     py_bind (morphology_demo ms (v(''unknown'' := []))) (\<lambda>_.
     py_bind py_input (\<lambda>_.
     py_return (g\<lparr>morphology := ms, vocab := v(''unknown'' := [])\<rparr>)))))"

subsection \<open>Stage 3: syntax (lines 139--158)\<close>

text \<open>Lines 152--154: a word of the bucket, or a fresh word when the bucket is empty.\<close>

definition pick_word :: "phonology \<Rightarrow> string list \<Rightarrow> string game_io" where
  "pick_word ph ws = (if ws \<noteq> [] then py_choice ws else generate_word ph None)"

fun sample_sentences :: "game \<Rightarrow> nat \<Rightarrow> nat \<Rightarrow> unit game_io" where
  "sample_sentences g i 0 = py_return ()"
| "sample_sentences g i (Suc n) =
     py_bind (pick_word (phonology g) (vocab g ''noun'')) (\<lambda>s.
     py_bind (pick_word (phonology g) (vocab g ''verb'')) (\<lambda>v.
     py_bind (pick_word (phonology g) (vocab g ''noun'')) (\<lambda>obj.
     py_bind (py_print (Sentence_pair (Suc i) (generate_sentence (syntax_sys g) s v obj)
                (question_form (syntax_sys g) (generate_sentence (syntax_sys g) s v obj)))) (\<lambda>_.
     sample_sentences g (Suc i) n))))"

definition level_3_syntax :: "game \<Rightarrow> game game_io" where
  "level_3_syntax g =
     py_bind py_input (\<lambda>order.
     py_bind py_input (\<lambda>q.
     py_bind (sample_sentences
                (g\<lparr>syntax_sys := set_question_marker (py_strip q)
                                   (set_word_order (py_strip order) (syntax_sys g))\<rparr>) 0 3) (\<lambda>_.
     py_bind py_input (\<lambda>_.
     py_return (g\<lparr>syntax_sys := set_question_marker (py_strip q)
                                  (set_word_order (py_strip order) (syntax_sys g))\<rparr>)))))"

subsection \<open>Showcase and the whole game (lines 160--182)\<close>

definition showcase_samples :: "string list" where
  "showcase_samples =
     [''mita laqi bubu'', ''miying Tama'', ''ma-lukus laqi'', ''pita qhuni idaw'',
      ''s-malu tama laqi'', ''miyax bubu qhuni'']"

fun print_samples :: "nat \<Rightarrow> string list \<Rightarrow> unit game_io" where
  "print_samples i [] = py_return ()"
| "print_samples i (s # ss) = py_bind (py_print (Showcase_line i s)) (\<lambda>_. print_samples (Suc i) ss)"

definition final_showcase :: "unit game_io" where
  "final_showcase = print_samples 1 showcase_samples"

definition run_game :: "game \<Rightarrow> game game_io" where
  "run_game g =
     py_bind display_welcome (\<lambda>_.
     py_bind (level_1_phonology g) (\<lambda>g1.
     py_bind (level_2_morphology g1) (\<lambda>g2.
     py_bind (level_3_syntax g2) (\<lambda>g3.
     py_bind final_showcase (\<lambda>_. py_return g3)))))"

definition main :: "game game_io" where
  "main = run_game init_game"

subsection \<open>Abstract description of the stages\<close>

text \<open>
  A word the syntax stage may use for a slot: one of the bucket when the bucket is not
  empty, otherwise a fresh word of one to three syllables of the phonology.
\<close>

definition picked :: "phonology \<Rightarrow> string list \<Rightarrow> string \<Rightarrow> bool" where
  "picked ph ws x \<longleftrightarrow> (if ws \<noteq> [] then x \<in> set ws else (\<exists>k \<in> {1, 2, 3}. word_fits ph k x))"

text \<open>The input lines that add a rule in the morphology menu: code \<open>1\<close> and four fields.\<close>

definition rule_lines :: "morphology_rule \<Rightarrow> string list" where
  "rule_lines r = [''1'', name r, rule_type r, marker r, meaning r]"

section \<open>Properties\<close>

declare phonology_menu.simps [simp del] morphology_menu.simps [simp del]

subsection \<open>Stage 1\<close>


lemma phonology_menu_Nil: "stdin w = [] \<Longrightarrow> phonology_menu ph w = Inl EOFError"
  by (subst phonology_menu.simps) simp

lemma phonology_menu_one:
  "stdin w = [l] \<Longrightarrow>
   phonology_menu ph w =
   (case edit_of_choice (py_strip l) of None \<Rightarrow> Inr (ph, w\<lparr>stdin := []\<rparr>) | Some f \<Rightarrow> Inl EOFError)"
  by (subst phonology_menu.simps) (simp split: option.split)

lemma phonology_menu_Cons2:
  "stdin w = l # a # rest \<Longrightarrow>
   phonology_menu ph w =
   (case edit_of_choice (py_strip l) of
      None \<Rightarrow> Inr (ph, w\<lparr>stdin := a # rest\<rparr>)
    | Some f \<Rightarrow>
        (case apply_edit (f (py_strip a)) ph of
           Inl e \<Rightarrow> Inl e
         | Inr ph' \<Rightarrow> phonology_menu ph' (w\<lparr>stdin := rest\<rparr>)))"
  by (subst phonology_menu.simps) (simp split: option.split)

lemma phonology_menu_Inr:
  "phonology_menu ph w = Inr (ph', w') \<Longrightarrow>
   w' = w\<lparr>stdin := stdin w'\<rparr> \<and> length (stdin w') < length (stdin w)
   \<and> (phon_inv ph \<longrightarrow> phon_inv ph') \<and> syllable_patterns ph' = syllable_patterns ph"
proof (induction ph w rule: phonology_menu.induct)
  case (1 ph w)
  show ?case
  proof (cases "stdin w")
    case Nil
    with "1.prems" show ?thesis by (simp add: phonology_menu_Nil)
  next
    case (Cons l ls)
    show ?thesis
    proof (cases "edit_of_choice (py_strip l)")
      case None
      with "1.prems" Cons show ?thesis by (subst (asm) phonology_menu.simps) auto
    next
      case (Some f)
      show ?thesis
      proof (cases ls)
        case Nil
        with "1.prems" Cons Some show ?thesis by (simp add: phonology_menu_one)
      next
        case (Cons a rest)
        obtain ph1 where e: "apply_edit (f (py_strip a)) ph = Inr ph1"
          using apply_edit_total by blast
        from "1.prems" \<open>stdin w = l # ls\<close> Cons Some e
        have r: "phonology_menu ph1 (w\<lparr>stdin := rest\<rparr>) = Inr (ph', w')"
          by (simp add: phonology_menu_Cons2)
        have "py_input w = Inr (l, w\<lparr>stdin := ls\<rparr>)" and
          "py_input (w\<lparr>stdin := ls\<rparr>) = Inr (a, w\<lparr>stdin := rest\<rparr>)"
          using \<open>stdin w = l # ls\<close> Cons by simp_all
        from "1.IH" [OF this(1) refl Some this(2) refl e] r
        have "w' = w\<lparr>stdin := rest\<rparr>\<lparr>stdin := stdin w'\<rparr> \<and> length (stdin w') < length rest
              \<and> (phon_inv ph1 \<longrightarrow> phon_inv ph') \<and> syllable_patterns ph' = syllable_patterns ph1"
          by simp
        with \<open>stdin w = l # ls\<close> Cons e show ?thesis
          by (auto dest: apply_edit_phon_inv apply_edit_patterns)
      qed
    qed
  qed
qed

lemma phonology_menu_Inl: "phonology_menu ph w = Inl e \<Longrightarrow> e = EOFError"
proof (induction ph w rule: phonology_menu.induct)
  case (1 ph w)
  show ?case
  proof (cases "stdin w")
    case Nil
    with "1.prems" show ?thesis by (simp add: phonology_menu_Nil)
  next
    case (Cons l ls)
    show ?thesis
    proof (cases "edit_of_choice (py_strip l)")
      case None
      with "1.prems" Cons show ?thesis by (subst (asm) phonology_menu.simps) auto
    next
      case (Some f)
      show ?thesis
      proof (cases ls)
        case Nil
        with "1.prems" Cons Some show ?thesis by (simp add: phonology_menu_one)
      next
        case (Cons a rest)
        obtain ph1 where e: "apply_edit (f (py_strip a)) ph = Inr ph1"
          using apply_edit_total by blast
        have "py_input w = Inr (l, w\<lparr>stdin := ls\<rparr>)" and
          "py_input (w\<lparr>stdin := ls\<rparr>) = Inr (a, w\<lparr>stdin := rest\<rparr>)"
          using \<open>stdin w = l # ls\<close> Cons by simp_all
        from "1.IH" [OF this(1) refl Some this(2) refl e] "1.prems" \<open>stdin w = l # ls\<close> Cons Some e
        show ?thesis by (simp add: phonology_menu_Cons2)
      qed
    qed
  qed
qed

lemma edit_code_dispatch:
  "\<exists>f. edit_of_choice (py_strip (edit_code e)) = Some f \<and> f (edit_arg e) = e"
  by (cases e) (simp_all add: edit_of_choice_def py_strip_def py_isspace_def)

text \<open>
  C13: the phonology menu implements the specification's inventory edits: on input that
  encodes a sequence of edits (code \<open>1\<close>--\<open>4\<close>, then the grapheme) followed by a line
  that is not a code, it consumes exactly those lines, never raises, leaves the pattern
  list alone, and the resulting inventory is the specification's edits applied in order.
\<close>

theorem phonology_menu_edits:
  assumes "list_all (\<lambda>e. py_strip (edit_arg e) = edit_arg e) es"
    and "edit_of_choice (py_strip x) = None"
  shows "\<exists>ph'. phonology_menu ph (w\<lparr>stdin := concat (map edit_lines es) @ x # rest\<rparr>) =
                Inr (ph', w\<lparr>stdin := rest\<rparr>)
              \<and> inventory_abs ph' = fold spec_edit es (inventory_abs ph)
              \<and> syllable_patterns ph' = syllable_patterns ph"
  using assms(1)
proof (induction es arbitrary: ph)
  case Nil
  with assms(2) show ?case by (cases rest) (simp_all add: phonology_menu_one phonology_menu_Cons2)
next
  case (Cons e es)
  from edit_code_dispatch obtain f where f: "edit_of_choice (py_strip (edit_code e)) = Some f"
    and fe: "f (edit_arg e) = e" by blast
  from Cons.prems have a: "py_strip (edit_arg e) = edit_arg e"
    and es: "list_all (\<lambda>e. py_strip (edit_arg e) = edit_arg e) es" by simp_all
  obtain ph1 where e: "apply_edit e ph = Inr ph1" using apply_edit_total by blast
  have "phonology_menu ph (w\<lparr>stdin := concat (map edit_lines (e # es)) @ x # rest\<rparr>) =
        phonology_menu ph1 (w\<lparr>stdin := concat (map edit_lines es) @ x # rest\<rparr>)"
    using f fe a e by (simp add: edit_lines_def phonology_menu_Cons2)
  moreover from e have "inventory_abs ph1 = spec_edit e (inventory_abs ph)"
    and "syllable_patterns ph1 = syllable_patterns ph"
    by (simp_all add: apply_edit_abs apply_edit_patterns)
  ultimately show ?case using Cons.IH [OF es, of ph1] by auto
qed

lemma sample_words_Inr:
  "sample_words ph i n w = Inr (ws, w') \<Longrightarrow>
   length ws = n \<and> list_all (\<lambda>x. \<exists>k \<in> {1, 2, 3}. word_fits ph k x) ws
   \<and> stdin w' = stdin w
   \<and> transcript w' = transcript w @ map2 Sample_word [Suc i..<Suc i + n] ws"
proof (induction n arbitrary: i w ws)
  case 0
  then show ?case by (simp add: py_return_def)
next
  case (Suc n)
  from Suc.prems obtain x w1 ws' w2 where
    x: "generate_word ph None w = Inr (x, w1)" and
    r: "sample_words ph (Suc i) n (w1\<lparr>transcript := transcript w1 @ [Sample_word (Suc i) x]\<rparr>) = Inr (ws', w')"
    and ws: "ws = x # ws'"
    by (auto simp: py_bind_eq_Inr py_print_def py_return_def)
  from draws_only_frame [OF draws_only_generate_word x] have f: "stdin w1 = stdin w" "transcript w1 = transcript w"
    by simp_all
  from generate_word_None_fits [OF x] have "\<exists>k \<in> {1, 2, 3}. word_fits ph k x" .
  moreover from Suc.IH [OF r] f have
    "length ws' = n \<and> list_all (\<lambda>x. \<exists>k \<in> {1, 2, 3}. word_fits ph k x) ws' \<and> stdin w' = stdin w
     \<and> transcript w' = transcript w @ [Sample_word (Suc i) x] @ map2 Sample_word [Suc (Suc i)..<Suc (Suc i) + n] ws'"
    by simp
  moreover have "[Suc i..<Suc i + Suc n] = Suc i # [Suc (Suc i)..<Suc (Suc i) + n]"
    by (simp add: upt_conv_Cons)
  ultimately show ?case using ws by simp
qed

lemma sample_words_total:
  "inventory_ok ph \<Longrightarrow> \<exists>ws w'. sample_words ph i n w = Inr (ws, w')"
proof (induction n arbitrary: i w)
  case 0
  then show ?case by (simp add: py_return_def)
next
  case (Suc n)
  then obtain x w1 where x: "generate_word ph None w = Inr (x, w1)"
    using generate_word_total by blast
  from Suc.IH [OF Suc.prems] obtain ws w' where
    "sample_words ph (Suc i) n (w1\<lparr>transcript := transcript w1 @ [Sample_word (Suc i) x]\<rparr>) = Inr (ws, w')"
    by blast
  with x show ?case by (simp add: py_print_def py_return_def)
qed

lemma level_1_phonology_Inr:
  assumes "level_1_phonology g w = Inr (g', w')"
  shows "\<exists>ph w1 ws w2 l.
           phonology_menu (phonology g) w = Inr (ph, w1)
         \<and> sample_words ph 0 5 w1 = Inr (ws, w2)
         \<and> stdin w2 = l # stdin w' \<and> w' = w2\<lparr>stdin := stdin w'\<rparr>
         \<and> g' = g\<lparr>phonology := ph, vocab := (vocab g)(''unknown'' := vocab g ''unknown'' @ ws)\<rparr>"
  using assms
  by (auto simp: level_1_phonology_def py_bind_eq_Inr py_return_def dest!: py_input_Inr)

lemma level_1_phonology_state:
  assumes "level_1_phonology g w = Inr (g', w')"
  shows "morphology g' = morphology g \<and> syntax_sys g' = syntax_sys g
    \<and> (phon_inv (phonology g) \<longrightarrow> phon_inv (phonology g'))
    \<and> syllable_patterns (phonology g') = syllable_patterns (phonology g)
    \<and> (\<exists>ws. vocab g' = (vocab g)(''unknown'' := vocab g ''unknown'' @ ws)
         \<and> list_all (\<lambda>x. \<exists>k \<in> {1, 2, 3}. word_fits (phonology g') k x) ws)"
proof -
  from level_1_phonology_Inr [OF assms] obtain ph w1 ws w2 l where
    m: "phonology_menu (phonology g) w = Inr (ph, w1)" and
    sw: "sample_words ph 0 5 w1 = Inr (ws, w2)" and
    g': "g' = g\<lparr>phonology := ph, vocab := (vocab g)(''unknown'' := vocab g ''unknown'' @ ws)\<rparr>"
    by blast
  from phonology_menu_Inr [OF m] sample_words_Inr [OF sw] g' show ?thesis by auto
qed

text \<open>
  C14: a successful phonology stage keeps the phonology its menu produced, prints exactly
  five words numbered 1 to 5, each of one to three syllables of that phonology, appends
  them in order to the \<open>unknown\<close> bucket, and leaves morphology and syntax alone.
\<close>

theorem level_1_phonology_words:
  assumes "level_1_phonology g w = Inr (g', w')"
  shows "(\<exists>w1. phonology_menu (phonology g) w = Inr (phonology g', w1))
    \<and> morphology g' = morphology g \<and> syntax_sys g' = syntax_sys g
    \<and> (\<exists>ws. length ws = 5 \<and> list_all (\<lambda>x. \<exists>k \<in> {1, 2, 3}. word_fits (phonology g') k x) ws
          \<and> vocab g' = (vocab g)(''unknown'' := vocab g ''unknown'' @ ws)
          \<and> transcript w' = transcript w @ map2 Sample_word [1..<6] ws)"
proof -
  from level_1_phonology_Inr [OF assms] obtain ph w1 ws w2 l where
    m: "phonology_menu (phonology g) w = Inr (ph, w1)" and
    sw: "sample_words ph 0 5 w1 = Inr (ws, w2)" and
    e: "w' = w2\<lparr>stdin := stdin w'\<rparr>" and
    g': "g' = g\<lparr>phonology := ph, vocab := (vocab g)(''unknown'' := vocab g ''unknown'' @ ws)\<rparr>"
    by blast
  from phonology_menu_Inr [OF m] have "w1 = w\<lparr>stdin := stdin w1\<rparr>" by blast
  then have "transcript w1 = transcript (w\<lparr>stdin := stdin w1\<rparr>)" by (rule arg_cong)
  then have tw1: "transcript w1 = transcript w" by simp
  from e have "transcript w' = transcript (w2\<lparr>stdin := stdin w'\<rparr>)" by (rule arg_cong)
  then have tw': "transcript w' = transcript w2" by simp
  from sample_words_Inr [OF sw] tw1 tw' g' m show ?thesis by auto
qed

subsection \<open>Stage 2\<close>

lemma morphology_menu_Nil: "stdin w = [] \<Longrightarrow> morphology_menu ms w = Inl EOFError"
  by (subst morphology_menu.simps) simp

lemma morphology_menu_Cons:
  "stdin w = l # ls \<Longrightarrow>
   morphology_menu ms w =
   (if py_strip l = ''1'' then
      (case read_rule (w\<lparr>stdin := ls\<rparr>) of
         Inl e \<Rightarrow> Inl e
       | Inr ((n, t, m, d), w2) \<Rightarrow> morphology_menu (add_rule n t m d ms) w2)
    else if py_strip l = ''2'' then
      morphology_menu ms (w\<lparr>stdin := ls, transcript := transcript w @ [Rules_listed (rules ms)]\<rparr>)
    else Inr (seed_default_rules ms, w\<lparr>stdin := ls\<rparr>))"
  by (subst morphology_menu.simps) (simp add: py_print_def)

lemma read_rule_Inr:
  "read_rule w = Inr (r, w') \<Longrightarrow> length (stdin w') \<le> length (stdin w) \<and> w' = w\<lparr>stdin := stdin w'\<rparr>"
  by (auto simp: read_rule_def py_bind_eq_Inr py_return_def dest: py_input_n_Inr)

lemma read_rule_Inl: "read_rule w = Inl e \<Longrightarrow> e = EOFError"
  by (auto simp: read_rule_def py_bind_eq_Inl py_return_def dest: py_input_n_Inl)

lemma morphology_menu_Inr:
  "morphology_menu ms w = Inr (ms', w') \<Longrightarrow>
   (\<exists>added. ms' = seed_default_rules (ms\<lparr>rules := rules ms @ added\<rparr>))
   \<and> length (stdin w') < length (stdin w) \<and> draws w' = draws w
   \<and> (\<exists>listed. transcript w' = transcript w @ map Rules_listed listed)"
proof (induction ms w rule: morphology_menu.induct)
  case (1 ms w)
  show ?case
  proof (cases "stdin w")
    case Nil
    with "1.prems" show ?thesis by (simp add: morphology_menu_Nil)
  next
    case (Cons l ls)
    have inp: "py_input w = Inr (l, w\<lparr>stdin := ls\<rparr>)" using Cons by simp
    consider (add) "py_strip l = ''1''" | (list) "py_strip l \<noteq> ''1''" "py_strip l = ''2''"
      | (stop) "py_strip l \<noteq> ''1''" "py_strip l \<noteq> ''2''" by blast
    then show ?thesis
    proof cases
      case add
      with "1.prems" Cons obtain n t m d w2 where
        rr: "read_rule (w\<lparr>stdin := ls\<rparr>) = Inr ((n, t, m, d), w2)" and
        rec: "morphology_menu (add_rule n t m d ms) w2 = Inr (ms', w')"
        by (auto simp: morphology_menu_Cons split: sum.splits prod.splits)
      from "1.IH"(1) [OF inp refl add rr refl refl refl refl rec]
      obtain added listed where
        a: "ms' = seed_default_rules ((add_rule n t m d ms)\<lparr>rules := rules (add_rule n t m d ms) @ added\<rparr>)"
        and l: "length (stdin w') < length (stdin w2)" and d: "draws w' = draws w2"
        and t: "transcript w' = transcript w2 @ map Rules_listed listed" by blast
      from read_rule_Inr [OF rr] have "length (stdin w2) \<le> length ls" "w2 = w\<lparr>stdin := ls\<rparr>\<lparr>stdin := stdin w2\<rparr>"
        by simp_all
      then have "length (stdin w2) \<le> length ls" "draws w2 = draws w" "transcript w2 = transcript w"
        by (metis world.select_convs world.surjective world.update_convs)+
      moreover from a have "ms' = seed_default_rules (ms\<lparr>rules := rules ms @ (\<lparr>name = n, rule_type = t, marker = m, meaning = d\<rparr> # added)\<rparr>)"
        by (simp add: add_rule_def)
      ultimately show ?thesis using Cons l d t by fastforce
    next
      case list
      let ?w2 = "w\<lparr>stdin := ls, transcript := transcript w @ [Rules_listed (rules ms)]\<rparr>"
      from "1.prems" Cons list have rec: "morphology_menu ms ?w2 = Inr (ms', w')"
        by (simp add: morphology_menu_Cons)
      have pr: "py_print (Rules_listed (rules ms)) (w\<lparr>stdin := ls\<rparr>) = Inr ((), ?w2)"
        by (simp add: py_print_def)
      from "1.IH"(2) [OF inp refl list pr refl rec]
      obtain added listed where "ms' = seed_default_rules (ms\<lparr>rules := rules ms @ added\<rparr>)"
        and "length (stdin w') < length ls" and "draws w' = draws w"
        and "transcript w' = transcript w @ [Rules_listed (rules ms)] @ map Rules_listed listed" by auto
      with Cons show ?thesis by (intro conjI exI [of _ added] exI [of _ "rules ms # listed"]) auto
    next
      case stop
      with "1.prems" Cons have "ms' = seed_default_rules ms" "w' = w\<lparr>stdin := ls\<rparr>"
        by (simp_all add: morphology_menu_Cons)
      with Cons show ?thesis by (intro conjI exI [of _ "[]"]) auto
    qed
  qed
qed

lemma morphology_menu_Inl: "morphology_menu ms w = Inl e \<Longrightarrow> e = EOFError"
proof (induction ms w rule: morphology_menu.induct)
  case (1 ms w)
  show ?case
  proof (cases "stdin w")
    case Nil
    with "1.prems" show ?thesis by (simp add: morphology_menu_Nil)
  next
    case (Cons l ls)
    have inp: "py_input w = Inr (l, w\<lparr>stdin := ls\<rparr>)" using Cons by simp
    consider (add) "py_strip l = ''1''" | (list) "py_strip l \<noteq> ''1''" "py_strip l = ''2''"
      | (stop) "py_strip l \<noteq> ''1''" "py_strip l \<noteq> ''2''" by blast
    then show ?thesis
    proof cases
      case add
      show ?thesis
      proof (cases "read_rule (w\<lparr>stdin := ls\<rparr>)")
        case (Inl e')
        with "1.prems" Cons add show ?thesis by (simp add: morphology_menu_Cons read_rule_Inl)
      next
        case (Inr r)
        obtain n t m d w2 where rr: "read_rule (w\<lparr>stdin := ls\<rparr>) = Inr ((n, t, m, d), w2)"
          using Inr by (metis prod.exhaust)
        with "1.prems" Cons add have "morphology_menu (add_rule n t m d ms) w2 = Inl e"
          by (simp add: morphology_menu_Cons)
        from "1.IH"(1) [OF inp refl add rr refl refl refl refl this] show ?thesis .
      qed
    next
      case list
      let ?w2 = "w\<lparr>stdin := ls, transcript := transcript w @ [Rules_listed (rules ms)]\<rparr>"
      have pr: "py_print (Rules_listed (rules ms)) (w\<lparr>stdin := ls\<rparr>) = Inr ((), ?w2)"
        by (simp add: py_print_def)
      from "1.prems" Cons list have "morphology_menu ms ?w2 = Inl e"
        by (simp add: morphology_menu_Cons)
      from "1.IH"(2) [OF inp refl list pr refl this] show ?thesis .
    next
      case stop
      with "1.prems" Cons show ?thesis by (simp add: morphology_menu_Cons)
    qed
  qed
qed

text \<open>
  C20: the two menu loops raise no exception but \<open>EOFError\<close> (input exhausted): the
  membership test keeps \<open>set.remove\<close> from raising \<open>KeyError\<close>, and a rule entry cut
  short by the end of input raises \<open>EOFError\<close>.
\<close>

theorem menus_raise_only_eof:
  "(phonology_menu ph w = Inl e \<longrightarrow> e = EOFError) \<and> (morphology_menu ms w = Inl e' \<longrightarrow> e' = EOFError)"
  using phonology_menu_Inl morphology_menu_Inl by blast

lemma draws_only_reclassify [frame_intros]: "draws_only (reclassify xs v)"
  by (induction xs arbitrary: v) (simp_all add: frame_intros)

lemma reclassify_Inr:
  "reclassify xs v w = Inr (v', w') \<Longrightarrow>
   \<exists>vs ns. v' = v(''verb'' := v ''verb'' @ vs, ''noun'' := v ''noun'' @ ns)
     \<and> mset vs + mset ns = mset xs \<and> subseq vs xs \<and> subseq ns xs"
proof (induction xs arbitrary: v w)
  case Nil
  then show ?case by (auto simp: py_return_def intro!: exI [of _ "[]"])
next
  case (Cons x xs)
  let ?r = "random_value (draws w 0)"
  let ?v1 = "if coin_verb ?r then v(''verb'' := v ''verb'' @ [x]) else v(''noun'' := v ''noun'' @ [x])"
  from Cons.prems have "reclassify xs ?v1 (w\<lparr>draws := next_draws (draws w)\<rparr>) = Inr (v', w')"
    by (simp add: py_random_def)
  from Cons.IH [OF this] obtain vs ns where
    v': "v' = ?v1(''verb'' := ?v1 ''verb'' @ vs, ''noun'' := ?v1 ''noun'' @ ns)"
    and m: "mset vs + mset ns = mset xs" and s: "subseq vs xs" "subseq ns xs" by blast
  show ?case
  proof (cases "coin_verb ?r")
    case True
    with v' m s show ?thesis by (intro exI [of _ "x # vs"] exI [of _ ns]) (auto simp: fun_eq_iff)
  next
    case False
    with v' m s show ?thesis by (intro exI [of _ vs] exI [of _ "x # ns"]) (auto simp: fun_eq_iff)
  qed
qed

lemma reclassify_total: "\<exists>v' w'. reclassify xs v w = Inr (v', w')"
  by (induction xs arbitrary: v w) (auto simp: py_return_def py_random_def)



lemma morphology_demo_Inr:
  assumes "morphology_demo ms v w = Inr (u, w')"
  shows "stdin w' = stdin w
    \<and> (\<exists>xv xn. (v ''verb'' \<noteq> [] \<longrightarrow> xv \<in> set (v ''verb''))
        \<and> (v ''noun'' \<noteq> [] \<longrightarrow> xn \<in> set (v ''noun''))
        \<and> transcript w' = transcript w
            @ (if v ''verb'' = [] then [] else [Past_demo xv (apply_morphology ms xv ''past'')])
            @ (if v ''noun'' = [] then [] else [Nominal_demo xn (apply_morphology ms xn ''nominal'')]))"
  using assms
  by (cases "v ''verb'' = []"; cases "v ''noun'' = []")
    (auto simp: morphology_demo_def py_bind_eq_Inr py_print_def py_return_def
      dest!: py_choice_Inr)

lemma morphology_demo_total: "\<exists>u w'. morphology_demo ms v w = Inr (u, w')"
  by (cases "v ''verb'' = []"; cases "v ''noun'' = []")
    (auto simp: morphology_demo_def py_choice_nonempty py_print_def py_return_def)

lemma level_2_morphology_Inr:
  assumes "level_2_morphology g w = Inr (g', w')"
  shows "\<exists>ms w1 v w2 u w3 l.
           morphology_menu (morphology g) w = Inr (ms, w1)
         \<and> reclassify (vocab g ''unknown'') (vocab g) w1 = Inr (v, w2)
         \<and> morphology_demo ms (v(''unknown'' := [])) w2 = Inr (u, w3)
         \<and> stdin w3 = l # stdin w' \<and> w' = w3\<lparr>stdin := stdin w'\<rparr>
         \<and> g' = g\<lparr>morphology := ms, vocab := v(''unknown'' := [])\<rparr>"
  using assms
  by (auto simp: level_2_morphology_def py_bind_eq_Inr py_return_def dest!: py_input_Inr)


lemma read_rule_Cons4:
  "stdin w = n # t # m # d # ls \<Longrightarrow>
   read_rule w = Inr ((py_strip n, py_strip t, py_strip m, py_strip d), w\<lparr>stdin := ls\<rparr>)"
  by (simp add: read_rule_def py_bind_def py_return_def numeral_eq_Suc)

text \<open>
  C16: on input that encodes a sequence of rules (code \<open>1\<close>, then name, type, marker and
  meaning) followed by a line that is neither \<open>1\<close> nor \<open>2\<close>, the morphology menu
  consumes exactly those lines and appends the rules in order, fields in the order they
  are read, before the seeding step.
\<close>

theorem morphology_menu_adds:
  assumes "list_all (\<lambda>r. py_strip (name r) = name r \<and> py_strip (rule_type r) = rule_type r
             \<and> py_strip (marker r) = marker r \<and> py_strip (meaning r) = meaning r) rs"
    and "py_strip x \<noteq> ''1''" and "py_strip x \<noteq> ''2''"
  shows "morphology_menu ms (w\<lparr>stdin := concat (map rule_lines rs) @ x # rest\<rparr>) =
         Inr (seed_default_rules (ms\<lparr>rules := rules ms @ rs\<rparr>), w\<lparr>stdin := rest\<rparr>)"
  using assms(1)
proof (induction rs arbitrary: ms)
  case Nil
  with assms(2,3) show ?case by (simp add: morphology_menu_Cons)
next
  case (Cons r rs)
  let ?w = "w\<lparr>stdin := concat (map rule_lines rs) @ x # rest\<rparr>"
  have one: "py_strip ''1'' = ''1''" by (simp add: py_strip_def py_isspace_def)
  from Cons.prems have r: "py_strip (name r) = name r" "py_strip (rule_type r) = rule_type r"
    "py_strip (marker r) = marker r" "py_strip (meaning r) = meaning r"
    and rs: "list_all (\<lambda>r. py_strip (name r) = name r \<and> py_strip (rule_type r) = rule_type r
             \<and> py_strip (marker r) = marker r \<and> py_strip (meaning r) = meaning r) rs" by simp_all
  have "read_rule (w\<lparr>stdin := name r # rule_type r # marker r # meaning r # stdin ?w\<rparr>) =
        Inr ((name r, rule_type r, marker r, meaning r), ?w)"
    using r by (simp add: read_rule_Cons4)
  then have "morphology_menu ms (w\<lparr>stdin := concat (map rule_lines (r # rs)) @ x # rest\<rparr>) =
        morphology_menu (add_rule (name r) (rule_type r) (marker r) (meaning r) ms) ?w"
    using one by (simp add: morphology_menu_Cons rule_lines_def)
  moreover have "add_rule (name r) (rule_type r) (marker r) (meaning r) ms = ms\<lparr>rules := rules ms @ [r]\<rparr>"
    by (simp add: add_rule_def)
  ultimately show ?case using Cons.IH [OF rs, of "ms\<lparr>rules := rules ms @ [r]\<rparr>"] by simp
qed


lemma coin_verb_random_value: "d < 2 ^ 53 \<Longrightarrow> coin_verb (random_value d) \<longleftrightarrow> 2 ^ 52 < d"
proof -
  assume d: "d < 2 ^ 53"
  then have r: "random_value d = real d / 2 ^ 53" by (simp add: random_value_def)
  have "coin_verb (random_value d) \<longleftrightarrow> real d / 2 ^ 53 > (0.5 :: real)"
    by (simp only: coin_verb_def r)
  also have "\<dots> \<longleftrightarrow> real d > 2 ^ 52" by (simp add: field_simps)
  also have "\<dots> \<longleftrightarrow> d > 2 ^ 52"
    by (metis of_nat_less_iff of_nat_numeral of_nat_power)
  finally show ?thesis .
qed

text \<open>
  C18: \<open>random.random() > 0.5\<close> is not an unbiased coin: of the \<open>2^53\<close> equally likely
  values, \<open>2^52 - 1\<close> send a word to the verbs and \<open>2^52 + 1\<close> (0.5 itself included) send
  it to the nouns.
\<close>

theorem coin_verb_bias:
  "card {d. d < 2 ^ 53 \<and> coin_verb (random_value d)} = 2 ^ 52 - 1
   \<and> card {d. d < 2 ^ 53 \<and> \<not> coin_verb (random_value d)} = 2 ^ 52 + 1"
proof -
  have v: "{d. d < 2 ^ 53 \<and> coin_verb (random_value d)} = {2 ^ 52 <..< (2 ^ 53 :: nat)}"
    by (auto simp: coin_verb_random_value)
  have n: "{d. d < 2 ^ 53 \<and> \<not> coin_verb (random_value d)} = {..(2 ^ 52 :: nat)}"
    by (auto simp: coin_verb_random_value)
  show ?thesis unfolding v n by simp
qed



text \<open>
  C17: the morphology stage empties the \<open>unknown\<close> bucket and distributes its words over
  the verb and noun buckets: each word lands in exactly one of them (as a multiset), the
  old verbs and nouns stay in front, and each bucket receives its words in their original
  order.
\<close>

theorem level_2_partition:
  assumes "level_2_morphology g w = Inr (g', w')"
  shows "vocab g' ''unknown'' = []
    \<and> mset (vocab g' ''verb'') + mset (vocab g' ''noun'') =
      mset (vocab g ''verb'') + mset (vocab g ''noun'') + mset (vocab g ''unknown'')
    \<and> (\<exists>vs ns. vocab g' ''verb'' = vocab g ''verb'' @ vs \<and> vocab g' ''noun'' = vocab g ''noun'' @ ns
         \<and> subseq vs (vocab g ''unknown'') \<and> subseq ns (vocab g ''unknown''))"
proof -
  from level_2_morphology_Inr [OF assms] obtain ms w1 v w2 where
    r: "reclassify (vocab g ''unknown'') (vocab g) w1 = Inr (v, w2)" and
    g': "g' = g\<lparr>morphology := ms, vocab := v(''unknown'' := [])\<rparr>" by blast
  from reclassify_Inr [OF r] obtain vs ns where
    v: "v = (vocab g)(''verb'' := vocab g ''verb'' @ vs, ''noun'' := vocab g ''noun'' @ ns)"
    and m: "mset vs + mset ns = mset (vocab g ''unknown'')"
    and s: "subseq vs (vocab g ''unknown'')" "subseq ns (vocab g ''unknown'')" by blast
  from g' v m s show ?thesis by (simp add: ac_simps)
qed
subsection \<open>Stage 3\<close>

lemma draws_only_pick_word [frame_intros]: "draws_only (pick_word ph ws)"
  by (simp add: pick_word_def frame_intros)

lemma pick_word_Inr: "pick_word ph ws w = Inr (x, w') \<Longrightarrow> picked ph ws x"
  by (cases "ws = []") (auto simp: pick_word_def picked_def dest: py_choice_Inr generate_word_None_fits)

lemma sample_sentences_Inr:
  "sample_sentences g i n w = Inr (u, w') \<Longrightarrow>
   \<exists>ts. length ts = n
     \<and> list_all (\<lambda>(s, v, obj). picked (phonology g) (vocab g ''noun'') s
          \<and> picked (phonology g) (vocab g ''verb'') v \<and> picked (phonology g) (vocab g ''noun'') obj) ts
     \<and> stdin w' = stdin w
     \<and> transcript w' = transcript w @ map2 (\<lambda>k (s, v, obj).
          Sentence_pair k (generate_sentence (syntax_sys g) s v obj)
            (generate_sentence (syntax_sys g) s v obj @ '' '' @ question_marker (syntax_sys g)))
          [Suc i..<Suc i + n] ts"
proof (induction n arbitrary: i w)
  case 0
  then show ?case by (simp add: py_return_def)
next
  case (Suc n)
  let ?ph = "phonology g" and ?N = "vocab g ''noun''" and ?V = "vocab g ''verb''"
  from Suc.prems obtain s w1 v w2 obj w3 where
    s: "pick_word ?ph ?N w = Inr (s, w1)" and v: "pick_word ?ph ?V w1 = Inr (v, w2)"
    and obj: "pick_word ?ph ?N w2 = Inr (obj, w3)" and
    r: "sample_sentences g (Suc i) n (w3\<lparr>transcript := transcript w3 @
          [Sentence_pair (Suc i) (generate_sentence (syntax_sys g) s v obj)
             (question_form (syntax_sys g) (generate_sentence (syntax_sys g) s v obj))]\<rparr>) = Inr (u, w')"
    by (auto simp: py_bind_eq_Inr py_print_def)
  from draws_only_frame [OF draws_only_pick_word s] draws_only_frame [OF draws_only_pick_word v]
    draws_only_frame [OF draws_only_pick_word obj]
  have f: "stdin w3 = stdin w" "transcript w3 = transcript w" by simp_all
  from Suc.IH [OF r] obtain ts where
    "length ts = n"
    "list_all (\<lambda>(s, v, obj). picked ?ph ?N s \<and> picked ?ph ?V v \<and> picked ?ph ?N obj) ts"
    "stdin w' = stdin w3"
    "transcript w' = transcript w3 @ [Sentence_pair (Suc i) (generate_sentence (syntax_sys g) s v obj)
             (question_form (syntax_sys g) (generate_sentence (syntax_sys g) s v obj))] @
       map2 (\<lambda>k (s, v, obj). Sentence_pair k (generate_sentence (syntax_sys g) s v obj)
            (generate_sentence (syntax_sys g) s v obj @ '' '' @ question_marker (syntax_sys g)))
          [Suc (Suc i)..<Suc (Suc i) + n] ts"
    by auto
  moreover have "[Suc i..<Suc i + Suc n] = Suc i # [Suc (Suc i)..<Suc (Suc i) + n]"
    by (simp add: upt_conv_Cons)
  moreover have "picked ?ph ?N s" "picked ?ph ?V v" "picked ?ph ?N obj"
    using s v obj by (simp_all add: pick_word_Inr)
  ultimately show ?case using f
    by (intro exI [of _ "(s, v, obj) # ts"]) (simp add: question_form_def)
qed

lemma level_3_syntax_Inr:
  assumes "level_3_syntax g w = Inr (g', w')"
  shows "\<exists>order q w2 u w3 l.
           stdin w = order # q # stdin w2 \<and> w2 = w\<lparr>stdin := stdin w2\<rparr>
         \<and> g' = g\<lparr>syntax_sys := set_question_marker (py_strip q)
                                  (set_word_order (py_strip order) (syntax_sys g))\<rparr>
         \<and> sample_sentences g' 0 3 w2 = Inr (u, w3)
         \<and> stdin w3 = l # stdin w' \<and> w' = w3\<lparr>stdin := stdin w'\<rparr>"
  using assms
  by (auto simp: level_3_syntax_def py_bind_eq_Inr py_return_def dest!: py_input_Inr) blast

text \<open>
  C19: the syntax stage reads the word order and the question marker from the first two
  lines; a stripped order among \<open>VOS SVO SOV VSO\<close> replaces the current one and any
  other input keeps it; a non-empty stripped marker replaces the current one.  It then
  prints exactly three pairs numbered 1 to 3, each a sentence built under the new settings
  from a subject and an object of the noun bucket and a verb of the verb bucket (a fresh
  word of one to three syllables when the bucket is empty), and its question form: the
  sentence, a blank and the marker.  Nothing else of the game changes.
\<close>

theorem level_3_syntax_sentences:
  assumes "level_3_syntax g w = Inr (g', w')"
  shows "\<exists>order q l. stdin w = order # q # l # stdin w'
    \<and> word_order (syntax_sys g') =
        (if py_strip order \<in> {''VOS'', ''SVO'', ''SOV'', ''VSO''} then py_strip order
         else word_order (syntax_sys g))
    \<and> question_marker (syntax_sys g') =
        (if py_strip q = [] then question_marker (syntax_sys g) else py_strip q)
    \<and> phonology g' = phonology g \<and> morphology g' = morphology g \<and> vocab g' = vocab g
    \<and> (\<exists>ts. length ts = 3
        \<and> list_all (\<lambda>(s, v, obj). picked (phonology g) (vocab g ''noun'') s
             \<and> picked (phonology g) (vocab g ''verb'') v \<and> picked (phonology g) (vocab g ''noun'') obj) ts
        \<and> transcript w' = transcript w @ map2 (\<lambda>k (s, v, obj).
             Sentence_pair k (generate_sentence (syntax_sys g') s v obj)
               (generate_sentence (syntax_sys g') s v obj @ '' '' @ question_marker (syntax_sys g')))
             [1..<4] ts)"
proof -
  from level_3_syntax_Inr [OF assms] obtain order q w2 u w3 l where
    i: "stdin w = order # q # stdin w2" "w2 = w\<lparr>stdin := stdin w2\<rparr>" and
    g': "g' = g\<lparr>syntax_sys := set_question_marker (py_strip q)
                               (set_word_order (py_strip order) (syntax_sys g))\<rparr>" and
    ss: "sample_sentences g' 0 3 w2 = Inr (u, w3)" and
    e: "stdin w3 = l # stdin w'" "w' = w3\<lparr>stdin := stdin w'\<rparr>" by blast
  from sample_sentences_Inr [OF ss] g' obtain ts where
    ts: "length ts = 3"
    "list_all (\<lambda>(s, v, obj). picked (phonology g) (vocab g ''noun'') s
        \<and> picked (phonology g) (vocab g ''verb'') v \<and> picked (phonology g) (vocab g ''noun'') obj) ts"
    and st: "stdin w3 = stdin w2"
    and tr: "transcript w3 = transcript w2 @ map2 (\<lambda>k (s, v, obj).
             Sentence_pair k (generate_sentence (syntax_sys g') s v obj)
               (generate_sentence (syntax_sys g') s v obj @ '' '' @ question_marker (syntax_sys g')))
             [1..<4] ts" by auto
  from i(2) have "transcript w2 = transcript (w\<lparr>stdin := stdin w2\<rparr>)" by (rule arg_cong)
  then have t2: "transcript w2 = transcript w" by simp
  from e(2) have "transcript w' = transcript (w3\<lparr>stdin := stdin w'\<rparr>)" by (rule arg_cong)
  then have t3: "transcript w' = transcript w3" by simp
  from i(1) st e(1) have "stdin w = order # q # l # stdin w'" by simp
  moreover have "word_order (syntax_sys g') =
        (if py_strip order \<in> {''VOS'', ''SVO'', ''SOV'', ''VSO''} then py_strip order
         else word_order (syntax_sys g))"
    and "question_marker (syntax_sys g') =
        (if py_strip q = [] then question_marker (syntax_sys g) else py_strip q)"
    using g' by (simp_all add: set_question_marker_def set_word_order_def word_orders_def)
  moreover have "phonology g' = phonology g" "morphology g' = morphology g" "vocab g' = vocab g"
    using g' by simp_all
  moreover from tr t2 t3 have "transcript w' = transcript w @ map2 (\<lambda>k (s, v, obj).
             Sentence_pair k (generate_sentence (syntax_sys g') s v obj)
               (generate_sentence (syntax_sys g') s v obj @ '' '' @ question_marker (syntax_sys g')))
             [1..<4] ts" by simp
  ultimately show ?thesis using ts by blast
qed

subsection \<open>Witnesses\<close>

theorem phonology_menu_edits_witness:
  "\<exists>ph'. phonology_menu default_phonology
      \<lparr>stdin = concat (map edit_lines [RemoveConsonant ''r'', AddVowel ''aa'']) @ [''''],
       draws = (\<lambda>_. 0), transcript = ([] :: event list)\<rparr> =
      Inr (ph', \<lparr>stdin = [], draws = (\<lambda>_. 0), transcript = []\<rparr>)
    \<and> inventory_abs ph' = fold spec_edit [RemoveConsonant ''r'', AddVowel ''aa'']
                            (inventory_abs default_phonology)
    \<and> syllable_patterns ph' = syllable_patterns default_phonology"
  using phonology_menu_edits [where es = "[RemoveConsonant ''r'', AddVowel ''aa'']" and x = "''''"
      and ph = default_phonology and rest = "[]"
      and w = "\<lparr>stdin = [], draws = (\<lambda>_. 0), transcript = ([] :: event list)\<rparr>"]
  by (simp add: py_strip_def py_isspace_def edit_of_choice_def)

theorem level_1_phonology_words_witness:
  "\<exists>g' w'. level_1_phonology init_game
       \<lparr>stdin = ['''', ''''], draws = (\<lambda>_. 0), transcript = []\<rparr> = Inr (g', w')
     \<and> (\<exists>w1. phonology_menu (phonology init_game) \<lparr>stdin = ['''', ''''], draws = (\<lambda>_. 0), transcript = []\<rparr>
            = Inr (phonology g', w1))
     \<and> (\<exists>ws. length ws = 5 \<and> list_all (\<lambda>x. \<exists>k \<in> {1, 2, 3}. word_fits (phonology g') k x) ws
          \<and> transcript w' = map2 Sample_word [1..<6] ws)"
proof -
  have "case level_1_phonology init_game \<lparr>stdin = ['''', ''''], draws = (\<lambda>_. 0), transcript = []\<rparr> of
          Inl _ \<Rightarrow> False | Inr _ \<Rightarrow> True" by code_simp
  then obtain g' w' where r: "level_1_phonology init_game
       \<lparr>stdin = ['''', ''''], draws = (\<lambda>_. 0), transcript = []\<rparr> = Inr (g', w')"
    by (auto split: sum.splits)
  from level_1_phonology_words [OF r] r show ?thesis by auto
qed

theorem morphology_menu_adds_witness:
  "morphology_menu \<lparr>rules = []\<rparr>
     \<lparr>stdin = concat (map rule_lines [\<lparr>name = ''plural'', rule_type = ''prefix'', marker = ''s-'',
                                      meaning = ''pl''\<rparr>]) @ [''''],
      draws = (\<lambda>_. 0), transcript = ([] :: event list)\<rparr> =
   Inr (\<lparr>rules = [\<lparr>name = ''plural'', rule_type = ''prefix'', marker = ''s-'', meaning = ''pl''\<rparr>]\<rparr>,
        \<lparr>stdin = [], draws = (\<lambda>_. 0), transcript = []\<rparr>)"
  using morphology_menu_adds [where rs = "[\<lparr>name = ''plural'', rule_type = ''prefix'', marker = ''s-'',
                                          meaning = ''pl''\<rparr>]" and x = "''''" and ms = "\<lparr>rules = []\<rparr>"
      and rest = "[]" and w = "\<lparr>stdin = [], draws = (\<lambda>_. 0), transcript = ([] :: event list)\<rparr>"]
  by (simp add: py_strip_def py_isspace_def seed_default_rules_def)


theorem menus_raise_only_eof_witness:
  "\<exists>e e'. phonology_menu default_phonology
             \<lparr>stdin = [''2''], draws = (\<lambda>_. 0), transcript = ([] :: event list)\<rparr> = Inl e
        \<and> morphology_menu \<lparr>rules = []\<rparr>
             \<lparr>stdin = [''1'', ''plural''], draws = (\<lambda>_. 0), transcript = ([] :: event list)\<rparr> = Inl e'
        \<and> e = EOFError \<and> e' = EOFError"
proof -
  have "case phonology_menu default_phonology
          \<lparr>stdin = [''2''], draws = (\<lambda>_. 0), transcript = ([] :: event list)\<rparr> of
          Inl _ \<Rightarrow> True | Inr _ \<Rightarrow> False" by code_simp
  then obtain e where p: "phonology_menu default_phonology
          \<lparr>stdin = [''2''], draws = (\<lambda>_. 0), transcript = ([] :: event list)\<rparr> = Inl e"
    by (auto split: sum.splits)
  have "case morphology_menu \<lparr>rules = []\<rparr>
          \<lparr>stdin = [''1'', ''plural''], draws = (\<lambda>_. 0), transcript = ([] :: event list)\<rparr> of
          Inl _ \<Rightarrow> True | Inr _ \<Rightarrow> False" by code_simp
  then obtain e' where m: "morphology_menu \<lparr>rules = []\<rparr>
          \<lparr>stdin = [''1'', ''plural''], draws = (\<lambda>_. 0), transcript = ([] :: event list)\<rparr> = Inl e'"
    by (auto split: sum.splits)
  from menus_raise_only_eof [of default_phonology _ e "\<lparr>rules = []\<rparr>" e'] p m
  show ?thesis by auto
qed

theorem level_2_partition_witness:
  "\<exists>g' w'. level_2_morphology (init_game\<lparr>vocab := (\<lambda>_. [])(''unknown'' := [''pi'', ''ka''])\<rparr>)
       \<lparr>stdin = ['''', ''''], draws = (\<lambda>_. 0), transcript = []\<rparr> = Inr (g', w')
     \<and> vocab g' ''unknown'' = []
     \<and> mset (vocab g' ''verb'') + mset (vocab g' ''noun'') = mset [''pi'', ''ka'']"
proof -
  have "case level_2_morphology (init_game\<lparr>vocab := (\<lambda>_. [])(''unknown'' := [''pi'', ''ka''])\<rparr>)
       \<lparr>stdin = ['''', ''''], draws = (\<lambda>_. 0), transcript = []\<rparr> of
          Inl _ \<Rightarrow> False | Inr _ \<Rightarrow> True" by code_simp
  then obtain g' w' where r: "level_2_morphology (init_game\<lparr>vocab := (\<lambda>_. [])(''unknown'' := [''pi'', ''ka''])\<rparr>)
       \<lparr>stdin = ['''', ''''], draws = (\<lambda>_. 0), transcript = []\<rparr> = Inr (g', w')"
    by (auto split: sum.splits)
  from level_2_partition [OF r] r show ?thesis by auto
qed

theorem level_3_syntax_sentences_witness:
  "\<exists>g' w'. level_3_syntax (init_game\<lparr>vocab := (\<lambda>_. [])(''noun'' := [''laqi''], ''verb'' := [''mita''])\<rparr>)
       \<lparr>stdin = [''SOV'', ''ma'', ''''], draws = (\<lambda>_. 0), transcript = []\<rparr> = Inr (g', w')
     \<and> word_order (syntax_sys g') = ''SOV'' \<and> question_marker (syntax_sys g') = ''ma''"
proof -
  let ?g = "init_game\<lparr>vocab := (\<lambda>_. [])(''noun'' := [''laqi''], ''verb'' := [''mita''])\<rparr>"
  let ?w = "\<lparr>stdin = [''SOV'', ''ma'', ''''], draws = (\<lambda>_. 0), transcript = ([] :: event list)\<rparr>"
  have "case level_3_syntax ?g ?w of Inl _ \<Rightarrow> False | Inr _ \<Rightarrow> True" by code_simp
  then obtain g' w' where r: "level_3_syntax ?g ?w = Inr (g', w')"
    by (auto split: sum.splits)
  from level_3_syntax_sentences [OF r] obtain order q l where
    i: "stdin ?w = order # q # l # stdin w'" and
    o: "word_order (syntax_sys g') =
        (if py_strip order \<in> {''VOS'', ''SVO'', ''SOV'', ''VSO''} then py_strip order
         else word_order (syntax_sys ?g))"
    and q: "question_marker (syntax_sys g') =
        (if py_strip q = [] then question_marker (syntax_sys ?g) else py_strip q)"
    by blast
  from i have "order = ''SOV''" "q = ''ma''" by simp_all
  with o q have "word_order (syntax_sys g') = ''SOV''" "question_marker (syntax_sys g') = ''ma''"
    by (simp_all add: py_strip_def py_isspace_def)
  with r show ?thesis by blast
qed

end
