(* ===== verification/Session.thy ===== *)
theory Session
  imports Game
begin

text \<open>
  The session as the specification describes it (spec section 5): a strictly linear
  sequence of stages \<open>Welcome \<rightarrow> PhonologyStage \<rightarrow> MorphologyStage \<rightarrow> SyntaxStage \<rightarrow>
  Showcase \<rightarrow> Terminated\<close>.  \<open>game_step\<close> is the step relation on configurations (stage,
  game state, world) whose steps are the methods that \<open>run_game\<close> (lines 174--179) calls
  in turn.  The theory shows that \<open>run_game\<close> returns exactly when the relation leads from
  \<open>Welcome\<close> to \<open>Terminated\<close>, and proves by rule induction an invariant of every
  configuration reachable from the initial game.
\<close>

datatype stage = Welcome | PhonologyStage | MorphologyStage | SyntaxStage | Showcase | Terminated

type_synonym config = "stage \<times> game \<times> event world"

inductive game_step :: "config \<Rightarrow> config \<Rightarrow> bool" where
  welcome_step: "display_welcome w = Inr (u, w') \<Longrightarrow> game_step (Welcome, g, w) (PhonologyStage, g, w')"
| phonology_step: "level_1_phonology g w = Inr (g', w') \<Longrightarrow>
    game_step (PhonologyStage, g, w) (MorphologyStage, g', w')"
| morphology_step: "level_2_morphology g w = Inr (g', w') \<Longrightarrow>
    game_step (MorphologyStage, g, w) (SyntaxStage, g', w')"
| syntax_step: "level_3_syntax g w = Inr (g', w') \<Longrightarrow> game_step (SyntaxStage, g, w) (Showcase, g', w')"
| showcase_step: "final_showcase w = Inr (u, w') \<Longrightarrow> game_step (Showcase, g, w) (Terminated, g, w')"

code_pred game_step .

inductive_cases game_step_WelcomeE: "game_step (Welcome, g, w) c"
inductive_cases game_step_PhonologyE: "game_step (PhonologyStage, g, w) c"
inductive_cases game_step_MorphologyE: "game_step (MorphologyStage, g, w) c"
inductive_cases game_step_SyntaxE: "game_step (SyntaxStage, g, w) c"
inductive_cases game_step_ShowcaseE: "game_step (Showcase, g, w) c"
inductive_cases game_step_TerminatedE: "game_step (Terminated, g, w) c"

text \<open>
  What holds of the game state at every stage: the inventories stay duplicate-free, the
  word order is one of the four, the question marker is non-empty, every word of the
  three buckets is a word of one to three syllables of the current phonology; the buckets
  are empty before the phonology stage has run; after the morphology stage the
  \<open>unknown\<close> bucket is empty and the rule table is not.
\<close>

definition vocab_words :: "game \<Rightarrow> string list" where
  "vocab_words g = vocab g ''unknown'' @ vocab g ''verb'' @ vocab g ''noun''"

definition session_inv :: "stage \<Rightarrow> game \<Rightarrow> bool" where
  "session_inv st g \<longleftrightarrow>
     phon_inv (phonology g) \<and> valid_order (syntax_sys g) \<and> question_marker (syntax_sys g) \<noteq> []
   \<and> list_all (\<lambda>x. \<exists>k \<in> {1, 2, 3}. word_fits (phonology g) k x) (vocab_words g)
   \<and> (st \<in> {Welcome, PhonologyStage} \<longrightarrow> vocab_words g = [])
   \<and> (st \<in> {SyntaxStage, Showcase, Terminated} \<longrightarrow>
        vocab g ''unknown'' = [] \<and> rules (morphology g) \<noteq> [])"

section \<open>Properties\<close>

lemma seed_default_rules_nonempty: "rules (seed_default_rules ms) \<noteq> []"
  by (simp add: seed_default_rules_def add_rule_def)

lemma level_2_morphology_state:
  assumes "level_2_morphology g w = Inr (g', w')"
  shows "phonology g' = phonology g \<and> syntax_sys g' = syntax_sys g
    \<and> rules (morphology g') \<noteq> [] \<and> vocab g' ''unknown'' = []
    \<and> set (vocab_words g') = set (vocab_words g)"
proof -
  from level_2_morphology_Inr [OF assms] obtain ms w1 v w2 where
    m: "morphology_menu (morphology g) w = Inr (ms, w1)" and
    r: "reclassify (vocab g ''unknown'') (vocab g) w1 = Inr (v, w2)" and
    g': "g' = g\<lparr>morphology := ms, vocab := v(''unknown'' := [])\<rparr>" by blast
  from morphology_menu_Inr [OF m] have "rules ms \<noteq> []"
    by (auto simp: seed_default_rules_nonempty)
  moreover from reclassify_Inr [OF r] obtain vs ns where
    v: "v = (vocab g)(''verb'' := vocab g ''verb'' @ vs, ''noun'' := vocab g ''noun'' @ ns)"
    and "mset vs + mset ns = mset (vocab g ''unknown'')" by blast
  then have "set vs \<union> set ns = set (vocab g ''unknown'')"
    by (metis set_mset_mset set_mset_union)
  ultimately show ?thesis using g' v by (auto simp: vocab_words_def)
qed

lemma valid_order_set_word_order: "valid_order syn \<Longrightarrow> valid_order (set_word_order order syn)"
  by (simp add: valid_order_def set_word_order_def)

lemma valid_order_set_question_marker: "valid_order syn \<Longrightarrow> valid_order (set_question_marker q syn)"
  by (simp add: valid_order_def set_question_marker_def)

lemma question_marker_set_question_marker:
  "question_marker syn \<noteq> [] \<Longrightarrow> question_marker (set_question_marker q syn) \<noteq> []"
  by (simp add: set_question_marker_def)

lemma question_marker_set_word_order:
  "question_marker (set_word_order order syn) = question_marker syn"
  by (simp add: set_word_order_def)

lemma session_inv_init: "session_inv Welcome init_game"
  by (simp add: session_inv_def init_game_def default_phonology_def default_syntax_def phon_inv_def
      valid_order_def word_orders_def vocab_words_def)

lemma game_step_session_inv:
  assumes "game_step (st, g, w) (st', g', w')" and "session_inv st g"
  shows "session_inv st' g'"
  using assms
proof (cases rule: game_step.cases)
  case phonology_step
  from level_1_phonology_state [OF phonology_step(3)] obtain ws where
    s: "morphology g' = morphology g" "syntax_sys g' = syntax_sys g"
       "phon_inv (phonology g) \<longrightarrow> phon_inv (phonology g')"
       "vocab g' = (vocab g)(''unknown'' := vocab g ''unknown'' @ ws)"
       "list_all (\<lambda>x. \<exists>k \<in> {1, 2, 3}. word_fits (phonology g') k x) ws" by blast
  with assms(2) phonology_step show ?thesis by (auto simp: session_inv_def vocab_words_def)
next
  case morphology_step
  from level_2_morphology_state [OF morphology_step(3)] assms(2) morphology_step show ?thesis
    by (auto simp: session_inv_def list_all_iff)
next
  case syntax_step
  from level_3_syntax_Inr [OF syntax_step(3)] obtain order q where
    "g' = g\<lparr>syntax_sys := set_question_marker (py_strip q) (set_word_order (py_strip order) (syntax_sys g))\<rparr>"
    by blast
  with assms(2) syntax_step show ?thesis
    by (auto simp: session_inv_def vocab_words_def valid_order_set_word_order
        valid_order_set_question_marker question_marker_set_question_marker
        question_marker_set_word_order)
qed (auto simp: session_inv_def)

lemma reach_Terminated: "game_step\<^sup>*\<^sup>* (Terminated, g, w) c \<Longrightarrow> c = (Terminated, g, w)"
  by (induction rule: rtranclp_induct) (auto elim: game_step_TerminatedE)

lemma reach_first_step:
  "game_step\<^sup>*\<^sup>* c (Terminated, g', w') \<Longrightarrow> fst c \<noteq> Terminated \<Longrightarrow>
   \<exists>c1. game_step c c1 \<and> game_step\<^sup>*\<^sup>* c1 (Terminated, g', w')"
  by (induction rule: converse_rtranclp_induct) auto

subsection \<open>The session on the default input\<close>

lemma pick_word_total: "ws \<noteq> [] \<or> inventory_ok ph \<Longrightarrow> \<exists>x w'. pick_word ph ws w = Inr (x, w')"
  by (cases "ws = []") (auto simp: pick_word_def py_choice_nonempty generate_word_total)

lemma sample_sentences_total:
  "inventory_ok (phonology g) \<Longrightarrow> \<exists>u w'. sample_sentences g i n w = Inr (u, w')"
proof (induction n arbitrary: i w)
  case 0
  then show ?case by (simp add: py_return_def)
next
  case (Suc n)
  from pick_word_total [of _ "phonology g"] Suc.prems obtain s w1 where
    s: "pick_word (phonology g) (vocab g ''noun'') w = Inr (s, w1)" by blast
  from pick_word_total [of _ "phonology g"] Suc.prems obtain v w2 where
    v: "pick_word (phonology g) (vocab g ''verb'') w1 = Inr (v, w2)" by blast
  from pick_word_total [of _ "phonology g"] Suc.prems obtain obj w3 where
    obj: "pick_word (phonology g) (vocab g ''noun'') w2 = Inr (obj, w3)" by blast
  from Suc.IH [OF Suc.prems] obtain u w' where
    "sample_sentences g (Suc i) n (w3\<lparr>transcript := transcript w3 @
       [Sentence_pair (Suc i) (generate_sentence (syntax_sys g) s v obj)
          (question_form (syntax_sys g) (generate_sentence (syntax_sys g) s v obj))]\<rparr>) = Inr (u, w')"
    by blast
  with s v obj show ?case by (auto simp: py_print_def)
qed

lemma inventory_ok_default: "inventory_ok default_phonology"
  by (simp add: inventory_ok_def default_phonology_def)

lemma level_1_default:
  assumes "stdin w = '''' # '''' # rest"
  shows "\<exists>ws w1. level_1_phonology init_game w =
             Inr (init_game\<lparr>vocab := (\<lambda>_. [])(''unknown'' := ws)\<rparr>, w1)
           \<and> length ws = 5 \<and> list_all (\<lambda>x. \<exists>k \<in> {1, 2, 3}. word_fits default_phonology k x) ws
           \<and> stdin w1 = rest \<and> transcript w1 = transcript w @ map2 Sample_word [1..<6] ws"
proof -
  have m: "phonology_menu default_phonology w = Inr (default_phonology, w\<lparr>stdin := '''' # rest\<rparr>)"
    using assms by (simp add: phonology_menu_Cons2 edit_of_choice_def)
  from sample_words_total [OF inventory_ok_default] obtain ws w2 where
    sw: "sample_words default_phonology 0 5 (w\<lparr>stdin := '''' # rest\<rparr>) = Inr (ws, w2)" by blast
  from sample_words_Inr [OF sw] have
    f: "length ws = 5" "list_all (\<lambda>x. \<exists>k \<in> {1, 2, 3}. word_fits default_phonology k x) ws"
    "stdin w2 = '''' # rest" "transcript w2 = transcript w @ map2 Sample_word [1..<6] ws"
    by simp_all
  have "level_1_phonology init_game w =
        Inr (init_game\<lparr>vocab := (\<lambda>_. [])(''unknown'' := ws)\<rparr>, w2\<lparr>stdin := rest\<rparr>)"
    using m sw f(3) by (simp add: level_1_phonology_def init_game_def py_bind_def py_return_def)
  with f show ?thesis by auto
qed

lemma default_rules_apply:
  "apply_morphology (seed_default_rules \<lparr>rules = []\<rparr>) x ''past'' = x @ ''-in''"
  "apply_morphology (seed_default_rules \<lparr>rules = []\<rparr>) x ''nominal'' = x @ ''-an''"
  by (simp_all add: seed_default_rules_def add_rule_def apply_morphology_def)

lemma level_3_default:
  assumes "stdin w = [] # [] # [] # rest" and "syntax_sys g = default_syntax"
    and "inventory_ok (phonology g)"
  shows "\<exists>g3 w3 ts. level_3_syntax g w = Inr (g3, w3) \<and> stdin w3 = rest \<and> length ts = 3
     \<and> list_all (\<lambda>(s, v, obj). picked (phonology g) (vocab g ''noun'') s
          \<and> picked (phonology g) (vocab g ''verb'') v \<and> picked (phonology g) (vocab g ''noun'') obj) ts
     \<and> transcript w3 = transcript w @ map2 (\<lambda>k (s, v, obj).
          Sentence_pair k (generate_sentence default_syntax s v obj)
            (generate_sentence default_syntax s v obj @ '' ka'')) [1..<4] ts"
proof -
  have syn: "set_question_marker (py_strip []) (set_word_order (py_strip []) (syntax_sys g)) = syntax_sys g"
    by (simp add: set_question_marker_def set_word_order_def word_orders_def)
  from sample_sentences_total [OF assms(3)] obtain u w3 where
    ss: "sample_sentences g 0 3 (w\<lparr>stdin := [] # rest\<rparr>) = Inr (u, w3)" by blast
  from sample_sentences_Inr [OF ss] assms(2) obtain ts where
    f: "length ts = 3"
    "list_all (\<lambda>(s, v, obj). picked (phonology g) (vocab g ''noun'') s
          \<and> picked (phonology g) (vocab g ''verb'') v \<and> picked (phonology g) (vocab g ''noun'') obj) ts"
    "stdin w3 = [] # rest"
    "transcript w3 = transcript w @ map2 (\<lambda>k (s, v, obj).
          Sentence_pair k (generate_sentence default_syntax s v obj)
            (generate_sentence default_syntax s v obj @ '' ka'')) [1..<4] ts"
    by (auto simp: default_syntax_def)
  have "level_3_syntax g w = Inr (g, w3\<lparr>stdin := rest\<rparr>)"
    using assms(1) syn ss f(3) by (simp add: level_3_syntax_def py_bind_def py_return_def)
  with f show ?thesis by auto
qed

lemma final_showcase_transcript:
  "final_showcase w = Inr ((), w\<lparr>transcript := transcript w @ map2 Showcase_line [1..<7] showcase_samples\<rparr>)"
  by (simp add: final_showcase_def showcase_samples_def py_bind_def py_print_def py_return_def
      upt_conv_Cons)

lemma picked_fits:
  "picked ph ws x \<Longrightarrow> list_all (\<lambda>y. \<exists>k \<in> {1, 2, 3}. word_fits ph k y) ws \<Longrightarrow>
   \<exists>k \<in> {1, 2, 3}. word_fits ph k x"
  by (cases "ws = []") (auto simp: picked_def list_all_iff)

lemma level_2_default:
  assumes "stdin w = [] # [] # rest" and "length ws = 5"
  shows "\<exists>g2 w2 demos. level_2_morphology (init_game\<lparr>vocab := (\<lambda>_. [])(''unknown'' := ws)\<rparr>) w = Inr (g2, w2)
     \<and> phonology g2 = default_phonology \<and> syntax_sys g2 = default_syntax
     \<and> set (vocab g2 ''verb'') \<union> set (vocab g2 ''noun'') = set ws
     \<and> stdin w2 = rest \<and> transcript w2 = transcript w @ demos \<and> demos \<noteq> [] \<and> length demos \<le> 2
     \<and> list_all (\<lambda>e. \<exists>x \<in> set ws. e = Past_demo x (x @ ''-in'') \<or> e = Nominal_demo x (x @ ''-an'')) demos"
proof -
  let ?V = "(\<lambda>_. [])(''unknown'' := ws)"
  let ?g = "init_game\<lparr>vocab := ?V\<rparr>"
  let ?ms = "seed_default_rules \<lparr>rules = []\<rparr>"
  have g: "morphology ?g = \<lparr>rules = []\<rparr>" "vocab ?g = ?V" "phonology ?g = default_phonology"
    "syntax_sys ?g = default_syntax" by (simp_all add: init_game_def)
  have m: "morphology_menu (morphology ?g) w = Inr (?ms, w\<lparr>stdin := [] # rest\<rparr>)"
    using assms(1) by (simp add: morphology_menu_Cons g)
  obtain v w2 where r: "reclassify (vocab ?g ''unknown'') (vocab ?g) (w\<lparr>stdin := [] # rest\<rparr>) = Inr (v, w2)"
    using reclassify_total by blast
  from reclassify_Inr [OF r] obtain vs ns where
    v: "v = ?V(''verb'' := vs, ''noun'' := ns)"
    and mv: "mset vs + mset ns = mset ws" by (auto simp: g)
  from mv have sv: "set vs \<union> set ns = set ws" by (metis set_mset_mset set_mset_union)
  have ne: "vs \<noteq> [] \<or> ns \<noteq> []"
  proof (rule ccontr)
    assume "\<not> (vs \<noteq> [] \<or> ns \<noteq> [])"
    with mv have "mset ws = {#}" by simp
    with assms(2) show False by simp
  qed
  from draws_only_frame [OF draws_only_reclassify r] have
    f2: "stdin w2 = [] # rest" "transcript w2 = transcript w" by simp_all
  let ?v = "v(''unknown'' := [])"
  have vv: "?v ''verb'' = vs" "?v ''noun'' = ns" using v by simp_all
  obtain u w3 where d: "morphology_demo ?ms ?v w2 = Inr (u, w3)"
    using morphology_demo_total by blast
  from morphology_demo_Inr [OF d] obtain xv xn where
    f3: "stdin w3 = stdin w2" and
    x3: "?v ''verb'' \<noteq> [] \<longrightarrow> xv \<in> set (?v ''verb'')"
        "?v ''noun'' \<noteq> [] \<longrightarrow> xn \<in> set (?v ''noun'')" and
    t3: "transcript w3 = transcript w2
            @ (if ?v ''verb'' = [] then [] else [Past_demo xv (apply_morphology ?ms xv ''past'')])
            @ (if ?v ''noun'' = [] then [] else [Nominal_demo xn (apply_morphology ?ms xn ''nominal'')])"
    by blast
  define demos where "demos = (if vs = [] then [] else [Past_demo xv (xv @ ''-in'')])
            @ (if ns = [] then [] else [Nominal_demo xn (xn @ ''-an'')])"
  from x3 vv sv have "vs \<noteq> [] \<longrightarrow> xv \<in> set ws" "ns \<noteq> [] \<longrightarrow> xn \<in> set ws" by auto
  with ne have dm: "demos \<noteq> [] \<and> length demos \<le> 2
     \<and> list_all (\<lambda>e. \<exists>x \<in> set ws. e = Past_demo x (x @ ''-in'') \<or> e = Nominal_demo x (x @ ''-an'')) demos"
    by (auto simp: demos_def)
  have t: "transcript (w3\<lparr>stdin := rest\<rparr>) = transcript w @ demos"
    using t3 f2 vv by (simp add: default_rules_apply demos_def)
  have "stdin w3 = [] # rest" using f3 f2 by simp
  then have run: "level_2_morphology ?g w = Inr (?g\<lparr>morphology := ?ms, vocab := ?v\<rparr>, w3\<lparr>stdin := rest\<rparr>)"
    using m r d by (simp add: level_2_morphology_def py_bind_def py_return_def)
  have "phonology (?g\<lparr>morphology := ?ms, vocab := ?v\<rparr>) = default_phonology"
    "syntax_sys (?g\<lparr>morphology := ?ms, vocab := ?v\<rparr>) = default_syntax"
    "set (vocab (?g\<lparr>morphology := ?ms, vocab := ?v\<rparr>) ''verb'') \<union>
     set (vocab (?g\<lparr>morphology := ?ms, vocab := ?v\<rparr>) ''noun'') = set ws"
    using g vv sv by simp_all
  moreover have "stdin (w3\<lparr>stdin := rest\<rparr>) = rest" by simp
  ultimately show ?thesis using run t dm by blast
qed

subsection \<open>Claims\<close>

text \<open>
  C22: \<open>run_game\<close> runs the stages in the order of the specification's state machine:
  it returns a final state and world exactly when the step relation leads from
  \<open>Welcome\<close> with the initial state and world to \<open>Terminated\<close> with them.
\<close>

theorem run_game_steps:
  "run_game g w = Inr (g', w') \<longleftrightarrow> game_step\<^sup>*\<^sup>* (Welcome, g, w) (Terminated, g', w')"
proof
  assume "run_game g w = Inr (g', w')"
  then obtain u w1 g1 w2 g2 w3 g3 w4 v where
    "display_welcome w = Inr (u, w1)" "level_1_phonology g w1 = Inr (g1, w2)"
    "level_2_morphology g1 w2 = Inr (g2, w3)" "level_3_syntax g2 w3 = Inr (g3, w4)"
    "final_showcase w4 = Inr (v, w')" "g' = g3"
    by (auto simp: run_game_def py_bind_eq_Inr py_return_def)
  then have "game_step (Welcome, g, w) (PhonologyStage, g, w1)"
    "game_step (PhonologyStage, g, w1) (MorphologyStage, g1, w2)"
    "game_step (MorphologyStage, g1, w2) (SyntaxStage, g2, w3)"
    "game_step (SyntaxStage, g2, w3) (Showcase, g3, w4)"
    "game_step (Showcase, g3, w4) (Terminated, g', w')"
    by (auto intro: game_step.intros)
  then show "game_step\<^sup>*\<^sup>* (Welcome, g, w) (Terminated, g', w')"
    by (meson converse_rtranclp_into_rtranclp rtranclp.rtrancl_refl)
next
  assume r0: "game_step\<^sup>*\<^sup>* (Welcome, g, w) (Terminated, g', w')"
  from reach_first_step [OF r0] obtain c1 where
    s1: "game_step (Welcome, g, w) c1" and r1: "game_step\<^sup>*\<^sup>* c1 (Terminated, g', w')" by auto
  from s1 obtain u w1 where c1: "c1 = (PhonologyStage, g, w1)" and
    e1: "display_welcome w = Inr (u, w1)" by (auto elim: game_step_WelcomeE)
  from reach_first_step [OF r1] c1 obtain c2 where
    s2: "game_step c1 c2" and r2: "game_step\<^sup>*\<^sup>* c2 (Terminated, g', w')" by auto
  from s2 c1 obtain g1 w2 where c2: "c2 = (MorphologyStage, g1, w2)" and
    e2: "level_1_phonology g w1 = Inr (g1, w2)" by (auto elim: game_step_PhonologyE)
  from reach_first_step [OF r2] c2 obtain c3 where
    s3: "game_step c2 c3" and r3: "game_step\<^sup>*\<^sup>* c3 (Terminated, g', w')" by auto
  from s3 c2 obtain g2 w3 where c3: "c3 = (SyntaxStage, g2, w3)" and
    e3: "level_2_morphology g1 w2 = Inr (g2, w3)" by (auto elim: game_step_MorphologyE)
  from reach_first_step [OF r3] c3 obtain c4 where
    s4: "game_step c3 c4" and r4: "game_step\<^sup>*\<^sup>* c4 (Terminated, g', w')" by auto
  from s4 c3 obtain g3 w4 where c4: "c4 = (Showcase, g3, w4)" and
    e4: "level_3_syntax g2 w3 = Inr (g3, w4)" by (auto elim: game_step_SyntaxE)
  from reach_first_step [OF r4] c4 obtain c5 where
    s5: "game_step c4 c5" and r5: "game_step\<^sup>*\<^sup>* c5 (Terminated, g', w')" by auto
  from s5 c4 obtain v w5 where c5: "c5 = (Terminated, g3, w5)" and
    e5: "final_showcase w4 = Inr (v, w5)" by (auto elim: game_step_ShowcaseE)
  from reach_Terminated [OF r5 [unfolded c5]] have "g' = g3" "w' = w5" by simp_all
  with e1 e2 e3 e4 e5 show "run_game g w = Inr (g', w')"
    by (simp add: run_game_def py_bind_def py_return_def)
qed

text \<open>
  C23: every configuration reachable from the initial game satisfies \<open>session_inv\<close>:
  duplicate-free inventories, a valid word order, a non-empty question marker, all
  vocabulary words well-formed words of the current phonology, empty buckets before the
  phonology stage, and after the morphology stage an empty \<open>unknown\<close> bucket and a
  non-empty rule table.
\<close>

theorem reachable_session_inv:
  assumes "game_step\<^sup>*\<^sup>* (Welcome, init_game, w) (st, g, w')"
  shows "session_inv st g"
  using assms
proof (induction "(st, g, w')" arbitrary: st g w' rule: rtranclp_induct)
  case base
  then show ?case by (simp add: session_inv_init)
next
  case (step c)
  obtain st0 g0 w0 where c: "c = (st0, g0, w0)" by (cases c) blast
  with step show ?case by (blast intro: game_step_session_inv)
qed


theorem reachable_session_inv_witness:
  "game_step\<^sup>*\<^sup>* (Welcome, init_game, \<lparr>stdin = [[]], draws = (\<lambda>_. 0), transcript = []\<rparr>)
     (PhonologyStage, init_game, \<lparr>stdin = [], draws = (\<lambda>_. 0), transcript = []\<rparr>)
   \<and> session_inv PhonologyStage init_game"
proof -
  have "game_step (Welcome, init_game, \<lparr>stdin = [[]], draws = (\<lambda>_. 0), transcript = []\<rparr>)
     (PhonologyStage, init_game, \<lparr>stdin = [], draws = (\<lambda>_. 0), transcript = []\<rparr>)"
    by (rule welcome_step) (simp add: display_welcome_def py_bind_def py_return_def)
  then have r: "game_step\<^sup>*\<^sup>* (Welcome, init_game, \<lparr>stdin = [[]], draws = (\<lambda>_. 0), transcript = []\<rparr>)
     (PhonologyStage, init_game, \<lparr>stdin = [], draws = (\<lambda>_. 0), transcript = []\<rparr>)" by blast
  from reachable_session_inv [OF r] r show ?thesis by blast
qed

end
