(* ===== verification/Spec2Isabelle.thy ===== *)
theory Spec2Isabelle
  imports Session
begin

text \<open>
  A verification development for \<open>src/truku_creator_game.py\<close>, a console game that
  walks a user through building a toy language in the style of Truku in three stages
  (phonology, morphology, syntax) and then shows six fixed example sentences.

  \<^bold>\<open>The program and its model.\<close>
  \<^item> \<open>Prelude\<close> models the Python runtime the game calls.  It defines a world made of
    the remaining standard-input lines, the remaining random draws (draw \<open>k\<close> is a
    natural number) and the transcript of printed results.  A computation returns a
    value and the new world, or an exception (\<open>IndexError\<close>, \<open>EOFError\<close>,
    \<open>KeyError\<close>) as \<open>Inl\<close>.  \<open>input()\<close>, \<open>random.choice\<close>, \<open>random.randint\<close>
    and \<open>random.random\<close> are modelled on such a world, Python sets as duplicate-free
    lists with \<open>set.remove\<close> raising \<open>KeyError\<close> on an absent element, and
    \<open>str.strip()\<close> and \<open>str.split()\<close> on ASCII whitespace (strings are UTF-8 bytes).
  \<^item> \<open>Phonology\<close> models \<open>PhonologySystem\<close> (lines 6--19: \<open>generate_syllable\<close>,
    \<open>generate_word\<close>) and the inventory edits of the phonology menu (lines 76--87), as
    the command datatype \<open>inventory_edit\<close> and \<open>apply_edit\<close>.
  \<^item> \<open>Morphology\<close> models \<open>MorphologyRule\<close> and \<open>MorphologySystem\<close> (lines 21--38)
    and the seeding of the default rules (lines 120--123).
  \<^item> \<open>Syntax\<close> models \<open>SyntaxSystem\<close> (lines 40--49), the word-order and
    question-marker settings (lines 145--148) and the question form (line 157).
  \<^item> \<open>Game\<close> models \<open>LanguageCreatorGame\<close> (lines 51--182).  The two menu loops
    are \<open>phonology_menu\<close> and \<open>morphology_menu\<close>; the stages are
    \<open>level_1_phonology\<close>, \<open>level_2_morphology\<close>, \<open>level_3_syntax\<close> and
    \<open>final_showcase\<close>; \<open>run_game\<close> runs them in order and \<open>main\<close> is line 182.
    What the game prints of the language is recorded as \<open>event\<close>s (the listing of an
    empty rule table, the "no rules yet" message, is \<open>Rules_listed []\<close>).
  \<^item> \<open>Session\<close> states the specification's stage machine (\<open>Welcome\<close> to
    \<open>Terminated\<close>) as the inductive step relation \<open>game_step\<close>, whose steps are the
    stage methods, and the invariant \<open>session_inv\<close> of its configurations.

  Data flows one way.  The phonology stage generates five words into the \<open>unknown\<close>
  bucket.  The morphology stage moves each of them to \<open>verb\<close> or \<open>noun\<close> by a coin
  flip and shows one affixation per non-empty bucket.  The syntax stage assembles three
  sentences from the buckets, or from fresh words when a bucket is empty.

  \<^bold>\<open>What is proved.\<close>
  \<^item> Phonology: every generated syllable and word follows the patterns and the
    inventory (soundness), every such string is generated by some draws (completeness),
    generation fails exactly when a drawn slot has an empty pool, and the edits never
    raise and refine the specification's set operations.
  \<^item> Morphology: \<open>apply_morphology\<close> equals a search for the first rule with the
    requested name and an effective type.  From it follow the prefix, suffix and no-match
    cases, and a finding: a same-named rule with another type does not shadow a later
    one.
  \<^item> Syntax: the tokens of a generated sentence are the inputs arranged by the word
    order, for any inputs.  For words without whitespace the sentence is exactly those
    words joined by single spaces.  An empty object leaves a double space in VOS and SOV
    order.
  \<^item> Game: the phonology menu refines the specification's edits on encoded input; the
    phonology stage prints and stores exactly five well-formed words; the morphology menu
    appends the entered rules and seeds the defaults only into an empty table; the
    morphology stage partitions the unknown words between verbs and nouns; the coin of
    line 127 is biased towards nouns by two of \<open>2^53\<close> values; the syntax stage applies
    valid settings only and prints three sentence/question pairs; the menus raise
    nothing but \<open>EOFError\<close>.
  \<^item> Session: \<open>run_game\<close> returns exactly when the step relation leads from
    \<open>Welcome\<close> to \<open>Terminated\<close>; every reachable configuration satisfies
    \<open>session_inv\<close> (rule induction).
  \<^item> Here: the specification's end-to-end scenario (\<open>default_session\<close>), for every
    sequence of random draws.

  \<^bold>\<open>Bounds and choices.\<close> There is no fuel.  The menu loops are \<^theory_text>\<open>function\<close>s
  that terminate because each iteration consumes an input line; a finite input either
  ends the loop or raises \<open>EOFError\<close>, as Python does at end of file.  Random draws
  are an arbitrary function of the draw index, so a statement that holds for every draw
  function holds for every run of the program; \<open>random()\<close> reads a draw modulo
  \<open>2^53\<close>, as CPython builds the float from 53 random bits.

  \<^bold>\<open>Not modelled.\<close> Banners, prompts and confirmation messages (pure output); the
  exact wording of printed lines (the events record their content); non-ASCII
  whitespace in \<open>strip()\<close>/\<open>split()\<close>; the probability distribution of the draws
  (the bias result counts the \<open>2^53\<close> values of \<open>random()\<close> instead).
\<close>

text \<open>
  C21: on the input of the specification's end-to-end scenario (eight empty lines: no edit
  in any stage), for every sequence of random draws, the game terminates with all input
  consumed and prints exactly five words of one to three syllables of the default
  phonology, then one or two morphology demonstrations with the seeded defaults (the past
  suffix \<open>-in\<close> on a verb, the nominal suffix \<open>-an\<close> on a noun, both words among the
  five), then three VOS sentences of well-formed words, each with its question form
  ending in \<open> ka\<close>, and finally the six showcase lines verbatim and in order.
\<close>

theorem default_session:
  "\<exists>g' w'. main \<lparr>stdin = replicate 8 [], draws = d, transcript = []\<rparr> = Inr (g', w') \<and> stdin w' = []
     \<and> (\<exists>ws demos ts. length ws = 5 \<and> list_all (\<lambda>x. \<exists>k \<in> {1, 2, 3}. word_fits default_phonology k x) ws
        \<and> demos \<noteq> [] \<and> length demos \<le> 2
        \<and> list_all (\<lambda>e. \<exists>x \<in> set ws. e = Past_demo x (x @ ''-in'') \<or> e = Nominal_demo x (x @ ''-an'')) demos
        \<and> length ts = 3
        \<and> list_all (\<lambda>(s, v, obj). list_all (\<lambda>x. \<exists>k \<in> {1, 2, 3}. word_fits default_phonology k x) [s, v, obj]) ts
        \<and> transcript w' = map2 Sample_word [1..<6] ws @ demos
            @ map2 (\<lambda>k (s, v, obj). Sentence_pair k (generate_sentence default_syntax s v obj)
                 (generate_sentence default_syntax s v obj @ '' ka'')) [1..<4] ts
            @ map2 Showcase_line [1..<7] [''mita laqi bubu'', ''miying Tama'', ''ma-lukus laqi'',
                 ''pita qhuni idaw'', ''s-malu tama laqi'', ''miyax bubu qhuni''])"
proof -
  let ?w0 = "\<lparr>stdin = replicate 8 [], draws = d, transcript = ([] :: event list)\<rparr>"
  let ?fits = "\<lambda>x. \<exists>k \<in> {1, 2, 3}. word_fits default_phonology k x"
  have e8: "replicate 8 ([] :: string) = [] # [] # [] # [] # [] # [] # [] # [] # []"
    by (simp add: numeral_eq_Suc)
  have wel: "display_welcome ?w0 = Inr ((), ?w0\<lparr>stdin := replicate 7 []\<rparr>)"
    by (simp add: display_welcome_def py_bind_def py_return_def e8 numeral_eq_Suc)
  have "stdin (?w0\<lparr>stdin := replicate 7 []\<rparr>) = [] # [] # replicate 5 []"
    by (simp add: numeral_eq_Suc)
  from level_1_default [OF this] obtain ws w1 where
    l1: "level_1_phonology init_game (?w0\<lparr>stdin := replicate 7 []\<rparr>) =
           Inr (init_game\<lparr>vocab := (\<lambda>_. [])(''unknown'' := ws)\<rparr>, w1)"
    and ws: "length ws = 5" "list_all ?fits ws"
    and f1: "stdin w1 = replicate 5 []" "transcript w1 = map2 Sample_word [1..<6] ws"
    by auto
  have "stdin w1 = [] # [] # replicate 3 []" using f1 by (simp add: numeral_eq_Suc)
  from level_2_default [OF this ws(1)] obtain g2 w2 demos where
    l2: "level_2_morphology (init_game\<lparr>vocab := (\<lambda>_. [])(''unknown'' := ws)\<rparr>) w1 = Inr (g2, w2)"
    and g2: "phonology g2 = default_phonology" "syntax_sys g2 = default_syntax"
      "set (vocab g2 ''verb'') \<union> set (vocab g2 ''noun'') = set ws"
    and f2: "stdin w2 = replicate 3 []" "transcript w2 = transcript w1 @ demos"
    and dm: "demos \<noteq> [] \<and> length demos \<le> 2
      \<and> list_all (\<lambda>e. \<exists>x \<in> set ws. e = Past_demo x (x @ ''-in'') \<or> e = Nominal_demo x (x @ ''-an'')) demos"
    by blast
  have "stdin w2 = [] # [] # [] # []" using f2 by (simp add: numeral_eq_Suc)
  moreover have "inventory_ok (phonology g2)" using g2 by (simp add: inventory_ok_default)
  ultimately obtain g3 w3 ts where
    l3: "level_3_syntax g2 w2 = Inr (g3, w3)" and f3: "stdin w3 = []" "length ts = 3"
    and pk: "list_all (\<lambda>(s, v, obj). picked (phonology g2) (vocab g2 ''noun'') s
          \<and> picked (phonology g2) (vocab g2 ''verb'') v \<and> picked (phonology g2) (vocab g2 ''noun'') obj) ts"
    and t3: "transcript w3 = transcript w2 @ map2 (\<lambda>k (s, v, obj).
          Sentence_pair k (generate_sentence default_syntax s v obj)
            (generate_sentence default_syntax s v obj @ '' ka'')) [1..<4] ts"
    using level_3_default [OF _ g2(2)] by blast
  have run: "main ?w0 = Inr (g3, w3\<lparr>transcript := transcript w3 @ map2 Showcase_line [1..<7] showcase_samples\<rparr>)"
    using wel l1 l2 l3 by (simp add: main_def run_game_def py_bind_def py_return_def final_showcase_transcript)
  have fv: "list_all ?fits (vocab g2 ''verb'')" "list_all ?fits (vocab g2 ''noun'')"
    using ws(2) g2(3) by (auto simp: list_all_iff)
  have pf: "\<And>x. picked default_phonology (vocab g2 ''verb'') x \<Longrightarrow> ?fits x"
    "\<And>x. picked default_phonology (vocab g2 ''noun'') x \<Longrightarrow> ?fits x"
    using picked_fits fv by blast+
  have "\<forall>t \<in> set ts. (case t of (s, v, obj) \<Rightarrow> list_all ?fits [s, v, obj])"
  proof
    fix t assume t: "t \<in> set ts"
    obtain s v obj where te: "t = (s, v, obj)" by (cases t) blast
    from pk t te g2(1) have "picked default_phonology (vocab g2 ''noun'') s"
      "picked default_phonology (vocab g2 ''verb'') v" "picked default_phonology (vocab g2 ''noun'') obj"
      by (auto simp: list_all_iff)
    then have "?fits s" "?fits v" "?fits obj" using pf by blast+
    then show "case t of (s, v, obj) \<Rightarrow> list_all ?fits [s, v, obj]" using te by simp
  qed
  then have tf: "list_all (\<lambda>(s, v, obj). list_all ?fits [s, v, obj]) ts" by (simp add: list_all_iff)
  let ?w' = "w3\<lparr>transcript := transcript w3 @ map2 Showcase_line [1..<7] showcase_samples\<rparr>"
  have st: "stdin ?w' = []" using f3 by simp
  have tr: "transcript ?w' = map2 Sample_word [1..<6] ws @ demos
            @ map2 (\<lambda>k (s, v, obj). Sentence_pair k (generate_sentence default_syntax s v obj)
                 (generate_sentence default_syntax s v obj @ '' ka'')) [1..<4] ts
            @ map2 Showcase_line [1..<7] [''mita laqi bubu'', ''miying Tama'', ''ma-lukus laqi'',
                 ''pita qhuni idaw'', ''s-malu tama laqi'', ''miyax bubu qhuni'']"
    using t3 f2 f1 by (simp add: showcase_samples_def)
  from run st tr ws dm f3(2) tf show ?thesis by blast
qed

end
